theory Spec2Isabelle
  imports Complex_Main
begin

section \<open>Interference visibility: the signal-processing pipeline of data_elab.py\<close>

text \<open>
  The development embeds the pure parts of \<^verbatim>\<open>data_elab.py\<close>. Python floats are
  idealised: a finite float is a real number, and \<open>NaN\<close> is a separate value that
  propagates through arithmetic and makes every comparison false. Infinities are not
  modelled. Arithmetic on measured values is exact; the two products of settings whose
  rounding decides an integer (the period and the delay in samples) go through the
  parameter \<open>float_mul\<close>, the product as Python computes it. The library routines
  \<^verbatim>\<open>find_peaks\<close> and \<^verbatim>\<open>curve_fit\<close> of SciPy and \<^verbatim>\<open>errorbar\<close> of Matplotlib are
  parameters of the functions that call them.
\<close>

subsection \<open>Errors and floats\<close>

datatype py_error = ValueError | IndexError | ZeroDivisionError | FitError

datatype pyfloat = NaN | Fin real

subsection \<open>Waveform Segmenter\<close>

text \<open>\<^verbatim>\<open>range(i, stop, step)\<close> for a positive step; \<^verbatim>\<open>range\<close> raises on step 0, which
  \<open>chunk_array\<close> handles before calling this.\<close>

function py_range :: "nat \<Rightarrow> nat \<Rightarrow> nat \<Rightarrow> nat list" where
  "py_range i stop step =
     (if step = 0 \<or> stop \<le> i then [] else i # py_range (i + step) stop step)"
  by pat_completeness auto
termination
  by (relation "measure (\<lambda>(i, stop, step). stop - i)") auto

declare py_range.simps [simp del]

text \<open>\<^verbatim>\<open>arr[lo:hi]\<close> for non-negative bounds.\<close>

definition slice :: "'a list \<Rightarrow> nat \<Rightarrow> nat \<Rightarrow> 'a list" where
  "slice arr lo hi = take (hi - lo) (drop lo arr)"

text \<open>\<^verbatim>\<open>[arr[i:i + size] for i in range(0, len(arr), size)]\<close>. A zero step makes
  \<^verbatim>\<open>range\<close> raise ValueError; a negative step gives the empty range.\<close>

definition chunk_array :: "'a list \<Rightarrow> int \<Rightarrow> py_error + 'a list list" where
  "chunk_array arr sz =
     (if sz = 0 then Inl ValueError
      else if sz < 0 then Inr []
      else Inr (map (\<lambda>i. slice arr i (i + nat sz)) (py_range 0 (length arr) (nat sz))))"

text \<open>Lines 43 to 47 of \<open>interference_voltage_estimation\<close>: the period in samples is
  \<^verbatim>\<open>int(period * sampling_rate)\<close> (truncation towards zero), a non-positive period raises,
  and the windows are the chunks without the first one (\<^verbatim>\<open>[1:]\<close>).\<close>

definition py_int :: "real \<Rightarrow> int" where
  "py_int x = (if 0 \<le> x then \<lfloor>x\<rfloor> else \<lceil>x\<rceil>)"

definition windows_of :: "'a list \<Rightarrow> int \<Rightarrow> py_error + 'a list list" where
  "windows_of voltages sampling_period =
     (if sampling_period \<le> 0 then Inl ValueError
      else case chunk_array voltages sampling_period of
             Inl e \<Rightarrow> Inl e
           | Inr chunks \<Rightarrow> Inr (drop 1 chunks))"

subsection \<open>Peak Selector\<close>

text \<open>Lines 65 to 67: the list \<^verbatim>\<open>[index_in_chunk, height]\<close> built from the indices that
  \<^verbatim>\<open>find_peaks\<close> returned, with \<^verbatim>\<open>heights_arr = chunk[peaks]\<close>.\<close>

definition candidates :: "real list \<Rightarrow> nat list \<Rightarrow> (nat \<times> real) list" where
  "candidates chunk peaks = map (\<lambda>p. (p, chunk ! p)) peaks"

text \<open>Lines 62 to 82. \<open>None\<close> is the \<^verbatim>\<open>continue\<close> taken when there is no peak.
  \<^verbatim>\<open>sorted(arr, key=lambda x: x[1], reverse=True)\<close> is a stable sort by descending
  height, here the stable insertion sort on the negated height; the second sort is by
  position.\<close>

definition select_peak :: "(nat \<times> real) list \<Rightarrow> nat option" where
  "select_peak cands =
     (if cands = [] then None
      else let arr = sort_key (\<lambda>x. - snd x) cands in
        if length arr < 3 then Some (fst (arr ! 0))
        else let top3_by_height = take 3 arr;
                 top3_sorted_by_pos = sort_key fst top3_by_height
             in Some (fst (top3_sorted_by_pos ! 1)))"

text \<open>An instance of the \<open>find_peaks\<close> parameter for the examples: the interior
  samples strictly greater than both neighbours. SciPy's routine returns these and the
  middle of every flat top (a run of equal samples with a lower sample on each side), so
  the two agree on a window without a flat top, as all the windows of the examples are.\<close>

definition strict_local_maxima :: "real list \<Rightarrow> nat list" where
  "strict_local_maxima chunk =
     filter (\<lambda>i. chunk ! (i - 1) < chunk ! i \<and> chunk ! (i + 1) < chunk ! i)
       [1..<length chunk - 1]"

text \<open>The window of the specification's example: peaks at the positions 5, 50 and 95,
  of heights 3, 9 and 1, in a window of 101 samples that are 0 elsewhere.\<close>

definition example_window :: "real list" where
  "example_window =
     map (\<lambda>i. if i = 5 then 3 else if i = 50 then 9 else if i = 95 then 1 else 0) [0..<101]"

subsection \<open>Local Gaussian Estimator\<close>

text \<open>Lines 50 to 53: \<^verbatim>\<open>int((delay * sampling_rate) // 2)\<close>, raised to 1 when smaller.
  The product is the one Python computes, \<open>float_mul delay sampling_rate\<close>: for floats
  the exact product rounded to a double, for integers the exact product. \<^verbatim>\<open>//\<close> is floor
  division, exact on that value, so its result is already integral.\<close>

definition delay_samples_of :: "(real \<Rightarrow> real \<Rightarrow> real) \<Rightarrow> real \<Rightarrow> real \<Rightarrow> int" where
  "delay_samples_of float_mul delay sampling_rate =
     (let delay_samples = \<lfloor>float_mul delay sampling_rate / 2\<rfloor>
      in if delay_samples < 1 then 1 else delay_samples)"

text \<open>The body of the loop over the chunks, lines 56 to 118. The parameter
  \<open>find_peaks\<close> stands for SciPy's routine (the indices of the local maxima) and
  \<open>gauss_fit xs ys p0\<close> for \<^verbatim>\<open>curve_fit(gaussian, xs, ys, p0=p0, maxfev=2000)\<close>: it
  returns the fitted \<open>(A, mu, sigma)\<close>, or \<open>None\<close> when the call raises, which the
  \<^verbatim>\<open>except Exception\<close> turns into skipping the chunk. The result \<open>Inr None\<close> is a skipped
  chunk, \<open>Inr (Some A)\<close> the amplitude appended to \<^verbatim>\<open>heights\<close>. An index outside the chunk
  makes \<^verbatim>\<open>chunk[peaks]\<close> raise IndexError, outside any \<^verbatim>\<open>try\<close>. The debug plot has no
  effect on \<^verbatim>\<open>heights\<close> and is left out.\<close>

definition process_chunk ::
  "(real list \<Rightarrow> nat list) \<Rightarrow>
   (real list \<Rightarrow> real list \<Rightarrow> real \<times> real \<times> real \<Rightarrow> (real \<times> real \<times> real) option) \<Rightarrow>
   int \<Rightarrow> real list \<Rightarrow> py_error + real option" where
  "process_chunk find_peaks gauss_fit delay_samples chunk =
     (if chunk = [] then Inr None
      else let peaks = find_peaks chunk in
        if \<exists>p \<in> set peaks. length chunk \<le> p then Inl IndexError
        else case select_peak (candidates chunk peaks) of
          None \<Rightarrow> Inr None
        | Some interference_peak_index \<Rightarrow>
            let low = max 0 (int interference_peak_index - delay_samples);
                high = min (int (length chunk)) (int interference_peak_index + delay_samples)
            in if high - low < 3 then Inr None
               else let xs = map real_of_int [low..high - 1];
                        ys = slice chunk (nat low) (nat high);
                        A0 = Max (set ys);
                        mu0 = real interference_peak_index;
                        sigma0 = max 1 (real_of_int (high - low) / 6)
                    in (case gauss_fit xs ys (A0, mu0, sigma0) of
                          None \<Rightarrow> Inr None
                        | Some (A, mu, sigma) \<Rightarrow> Inr (Some A)))"

text \<open>The loop of line 55 with the accumulator \<^verbatim>\<open>heights\<close>.\<close>

fun collect_heights ::
  "(real list \<Rightarrow> nat list) \<Rightarrow>
   (real list \<Rightarrow> real list \<Rightarrow> real \<times> real \<times> real \<Rightarrow> (real \<times> real \<times> real) option) \<Rightarrow>
   int \<Rightarrow> real list \<Rightarrow> real list list \<Rightarrow> py_error + real list" where
  "collect_heights find_peaks gauss_fit delay_samples heights [] = Inr heights"
| "collect_heights find_peaks gauss_fit delay_samples heights (chunk # chunks) =
     (case process_chunk find_peaks gauss_fit delay_samples chunk of
        Inl e \<Rightarrow> Inl e
      | Inr None \<Rightarrow> collect_heights find_peaks gauss_fit delay_samples heights chunks
      | Inr (Some A) \<Rightarrow>
          collect_heights find_peaks gauss_fit delay_samples (heights @ [A]) chunks)"

subsection \<open>Amplitude Aggregator\<close>

text \<open>\<^verbatim>\<open>np.mean\<close> and \<^verbatim>\<open>np.std\<close> (\<^verbatim>\<open>ddof=0\<close>: the root of the mean of the squared
  absolute deviations from the mean) on a non-empty array.\<close>

definition np_mean :: "real list \<Rightarrow> real" where
  "np_mean a = sum_list a / real (length a)"

definition np_std :: "real list \<Rightarrow> real" where
  "np_std a = sqrt (np_mean (map (\<lambda>x. \<bar>x - np_mean a\<bar> ^ 2) a))"

text \<open>Lines 120 to 123.\<close>

definition aggregate :: "real list \<Rightarrow> pyfloat \<times> pyfloat" where
  "aggregate heights =
     (if length heights = 0 then (NaN, NaN)
      else (Fin (np_mean heights), Fin (np_std heights)))"

text \<open>The settings that \<open>interference_voltage_estimation\<close> reads.\<close>

record settings =
  sampling_rate :: real
  period :: real
  delay :: real

text \<open>\<open>interference_voltage_estimation\<close> on the trace \<^verbatim>\<open>osc.readVolt()[0]\<close>.\<close>

definition interference_voltage_estimation ::
  "(real \<Rightarrow> real \<Rightarrow> real) \<Rightarrow> settings \<Rightarrow> (real list \<Rightarrow> nat list) \<Rightarrow>
   (real list \<Rightarrow> real list \<Rightarrow> real \<times> real \<times> real \<Rightarrow> (real \<times> real \<times> real) option) \<Rightarrow>
   real list \<Rightarrow> py_error + pyfloat \<times> pyfloat" where
  "interference_voltage_estimation float_mul st find_peaks gauss_fit voltages =
     (let sampling_period = py_int (float_mul (period st) (sampling_rate st)) in
      case windows_of voltages sampling_period of
        Inl e \<Rightarrow> Inl e
      | Inr chunks \<Rightarrow>
          (case collect_heights find_peaks gauss_fit
                  (delay_samples_of float_mul (delay st) (sampling_rate st)) [] chunks of
             Inl e \<Rightarrow> Inl e
           | Inr heights \<Rightarrow> Inr (aggregate heights)))"

subsection \<open>Visibility Fitter\<close>

text \<open>Float arithmetic: \<open>NaN\<close> propagates, and every comparison with \<open>NaN\<close> is false
  (so \<^verbatim>\<open>x != 0\<close> is true for \<open>NaN\<close>, which is plain inequality of the values here).\<close>

fun pf_add :: "pyfloat \<Rightarrow> pyfloat \<Rightarrow> pyfloat" where
  "pf_add (Fin a) (Fin b) = Fin (a + b)"
| "pf_add _ _ = NaN"

fun pf_sub :: "pyfloat \<Rightarrow> pyfloat \<Rightarrow> pyfloat" where
  "pf_sub (Fin a) (Fin b) = Fin (a - b)"
| "pf_sub _ _ = NaN"

fun pf_mul :: "pyfloat \<Rightarrow> pyfloat \<Rightarrow> pyfloat" where
  "pf_mul (Fin a) (Fin b) = Fin (a * b)"
| "pf_mul _ _ = NaN"

text \<open>Division by a divisor already known to differ from zero.\<close>

fun pf_div :: "pyfloat \<Rightarrow> pyfloat \<Rightarrow> pyfloat" where
  "pf_div (Fin a) (Fin b) = Fin (a / b)"
| "pf_div _ _ = NaN"

fun pf_gt :: "pyfloat \<Rightarrow> pyfloat \<Rightarrow> bool" where
  "pf_gt (Fin a) (Fin b) = (b < a)"
| "pf_gt _ _ = False"

fun pf_lt :: "pyfloat \<Rightarrow> pyfloat \<Rightarrow> bool" where
  "pf_lt (Fin a) (Fin b) = (a < b)"
| "pf_lt _ _ = False"

text \<open>\<^verbatim>\<open>np.min\<close> and \<^verbatim>\<open>np.max\<close> of a non-empty array: \<open>NaN\<close> as soon as one entry is.\<close>

fun fin_values :: "pyfloat list \<Rightarrow> real list option" where
  "fin_values [] = Some []"
| "fin_values (NaN # a) = None"
| "fin_values (Fin v # a) = map_option ((#) v) (fin_values a)"

definition np_min :: "pyfloat list \<Rightarrow> pyfloat" where
  "np_min a = (case fin_values a of None \<Rightarrow> NaN | Some vs \<Rightarrow> Fin (Min (set vs)))"

definition np_max :: "pyfloat list \<Rightarrow> pyfloat" where
  "np_max a = (case fin_values a of None \<Rightarrow> NaN | Some vs \<Rightarrow> Fin (Max (set vs)))"

text \<open>Python's built-in \<^verbatim>\<open>max\<close> and \<^verbatim>\<open>min\<close>: the first item, replaced by each later item
  that compares greater (smaller); ValueError on an empty list.\<close>

definition py_max :: "pyfloat list \<Rightarrow> py_error + pyfloat" where
  "py_max a = (case a of [] \<Rightarrow> Inl ValueError
               | x # xs \<Rightarrow> Inr (foldl (\<lambda>m v. if pf_gt v m then v else m) x xs))"

definition py_min :: "pyfloat list \<Rightarrow> py_error + pyfloat" where
  "py_min a = (case a of [] \<Rightarrow> Inl ValueError
               | x # xs \<Rightarrow> Inr (foldl (\<lambda>m v. if pf_lt v m then v else m) x xs))"

text \<open>\<open>initial_guess\<close>, lines 138 to 155; \<^verbatim>\<open>np.min\<close> of an empty array raises ValueError.\<close>

definition initial_guess ::
  "pyfloat list \<Rightarrow> pyfloat list \<Rightarrow> py_error + pyfloat \<times> pyfloat \<times> pyfloat \<times> pyfloat" where
  "initial_guess x y =
     (if length x = 0 then Inr (Fin 0, Fin 1, Fin 1, Fin 0)
      else if y = [] then Inl ValueError
      else let A = np_min y;
               B = pf_sub (np_max y) (np_min y);
               span = pf_sub (np_max x) (np_min x);
               k = (if span \<noteq> Fin 0 then pf_div (Fin (2 * pi)) span else Fin 1);
               phi = Fin 0
           in Inr (A, B, k, phi))"

text \<open>Line 222.\<close>

definition visibility :: "pyfloat \<Rightarrow> pyfloat \<Rightarrow> pyfloat" where
  "visibility A B =
     (if pf_add (pf_mul (Fin 2) A) B \<noteq> Fin 0
      then pf_div B (pf_add (pf_mul (Fin 2) A) B) else NaN)"

text \<open>Lines 224 and 225: \<^verbatim>\<open>M, m = max(means), min(means)\<close> and \<^verbatim>\<open>(M - m) / (M + m)\<close>
  on Python floats, where dividing by zero raises.\<close>

definition raw_visibility :: "pyfloat list \<Rightarrow> py_error + pyfloat" where
  "raw_visibility means =
     (case py_max means of Inl e \<Rightarrow> Inl e
      | Inr M \<Rightarrow> (case py_min means of Inl e \<Rightarrow> Inl e
         | Inr m \<Rightarrow> if pf_add M m = Fin 0 then Inl ZeroDivisionError
                    else Inr (pf_div (pf_sub M m) (pf_add M m))))"

text \<open>Lines 206 to 208: what the \<^verbatim>\<open>try\<close> block hands to \<^verbatim>\<open>curve_fit\<close>, namely
  \<^verbatim>\<open>np.asarray(temps)\<close>, \<^verbatim>\<open>np.asarray(means)\<close> and the initial guess.\<close>

definition fit_arguments ::
  "pyfloat list \<Rightarrow> pyfloat list \<Rightarrow>
   py_error + pyfloat list \<times> pyfloat list \<times> (pyfloat \<times> pyfloat \<times> pyfloat \<times> pyfloat)" where
  "fit_arguments temps means =
     (case initial_guess temps means of
        Inl e \<Rightarrow> Inl e
      | Inr p0 \<Rightarrow> let temps_arr = temps; means_arr = means in Inr (temps_arr, means_arr, p0))"

text \<open>What \<open>main\<close> prints from line 191 on.\<close>

datatype message =
    NoData
  | FittedVisibility pyfloat
  | RawVisibility pyfloat
  | FitFailed py_error

text \<open>Lines 191 to 228 of \<open>main\<close> on the loaded columns \<open>temps\<close>, \<open>means\<close> and
  \<open>std\<close>. \<open>Inl e\<close> is an exception that nothing catches: \<open>main\<close> stops and prints no
  message. \<open>Inr msgs\<close> is what gets printed.

  Before the \<^verbatim>\<open>try\<close> block the data are plotted: \<^verbatim>\<open>plt.scatter(temps, means)\<close> raises
  ValueError when the two columns differ in length, and the parameter \<open>errorbar\<close> stands
  for \<^verbatim>\<open>plt.errorbar(temps, means, yerr=std, ...)\<close>, which validates \<open>std\<close> against the
  data: \<open>None\<close> when it returns, \<open>Some e\<close> when it raises.

  The parameter \<open>cos2_fit\<close> stands for the bounded \<^verbatim>\<open>curve_fit(cos2, ...)\<close> call: \<open>Inl e\<close>
  when it raises, \<open>Inr (A, B, k, phi)\<close> when it returns \<^verbatim>\<open>popt\<close>. Any exception inside
  the \<^verbatim>\<open>try\<close> block, also one raised after the fit, ends the block with the failure
  message; what was printed before stays printed. The plot of the fitted curve and the
  calls after the \<^verbatim>\<open>try\<close> block do not depend on the data and are left out.\<close>

definition main_report ::
  "(pyfloat list \<Rightarrow> pyfloat list \<Rightarrow> pyfloat list \<Rightarrow> py_error option) \<Rightarrow>
   (pyfloat list \<Rightarrow> pyfloat list \<Rightarrow> pyfloat \<times> pyfloat \<times> pyfloat \<times> pyfloat \<Rightarrow>
      py_error + pyfloat \<times> pyfloat \<times> pyfloat \<times> pyfloat) \<Rightarrow>
   pyfloat list \<Rightarrow> pyfloat list \<Rightarrow> pyfloat list \<Rightarrow> py_error + message list" where
  "main_report errorbar cos2_fit temps means std =
     (if length temps = 0 then Inr [NoData]
      else if length temps \<noteq> length means then Inl ValueError
      else case errorbar temps means std of
        Some e \<Rightarrow> Inl e
      | None \<Rightarrow>
          (case fit_arguments temps means of
             Inl e \<Rightarrow> Inr [FitFailed e]
           | Inr (temps_arr, means_arr, p0) \<Rightarrow>
               (case cos2_fit temps_arr means_arr p0 of
                  Inl e \<Rightarrow> Inr [FitFailed e]
                | Inr (A, B, k, phi) \<Rightarrow>
                    Inr (FittedVisibility (visibility A B) #
                      (case raw_visibility means of
                         Inl e \<Rightarrow> [FitFailed e]
                       | Inr raw \<Rightarrow> [RawVisibility raw])))))"

text \<open>An instance of the \<open>errorbar\<close> parameter for the examples: it accepts error
  bars of the length of the data.\<close>

definition errorbar_same_length ::
  "pyfloat list \<Rightarrow> pyfloat list \<Rightarrow> pyfloat list \<Rightarrow> py_error option" where
  "errorbar_same_length temps means std =
     (if length std = length means then None else Some ValueError)"

text \<open>An instance of the \<open>cos2_fit\<close> parameter for the examples. Before it optimises,
  \<^verbatim>\<open>curve_fit\<close> raises ValueError on data that contain \<open>NaN\<close> (\<^verbatim>\<open>check_finite\<close>) and on
  an initial guess outside the bounds \<open>A, B, k \<ge> 0\<close>. The instance makes these two
  checks and then returns the initial guess in the place of the optimum.\<close>

fun pf_ge0 :: "pyfloat \<Rightarrow> bool" where
  "pf_ge0 (Fin a) = (0 \<le> a)"
| "pf_ge0 NaN = False"

definition checked_fit ::
  "pyfloat list \<Rightarrow> pyfloat list \<Rightarrow> pyfloat \<times> pyfloat \<times> pyfloat \<times> pyfloat \<Rightarrow>
     py_error + pyfloat \<times> pyfloat \<times> pyfloat \<times> pyfloat" where
  "checked_fit temps_arr means_arr p0 =
     (case p0 of (A, B, k, phi) \<Rightarrow>
        if NaN \<in> set temps_arr \<or> NaN \<in> set means_arr then Inl ValueError
        else if \<not> (pf_ge0 A \<and> pf_ge0 B \<and> pf_ge0 k) then Inl ValueError
        else Inr p0)"

subsection \<open>Settling\<close>

text \<open>\<open>set_and_wait\<close>, lines 126 to 135. The temperatures that successive calls of
  \<^verbatim>\<open>tec.read_temperature()\<close> return are the sequence \<open>reads\<close>; the state is the debounce
  counter and the number of readings taken so far. The inner loop polls until a reading
  is within tolerance, resetting the counter at every reading that is not.\<close>

partial_function (option) wait_in_tolerance ::
  "(nat \<Rightarrow> real) \<Rightarrow> real \<Rightarrow> real \<Rightarrow> nat \<Rightarrow> nat \<Rightarrow> (nat \<times> nat) option" where
  "wait_in_tolerance reads target tolerance count i =
     (if \<bar>reads i - target\<bar> > tolerance
      then wait_in_tolerance reads target tolerance 0 (i + 1)
      else Some (count, i + 1))"

partial_function (option) settle_loop ::
  "(nat \<Rightarrow> real) \<Rightarrow> real \<Rightarrow> real \<Rightarrow> nat \<Rightarrow> nat \<Rightarrow> nat option" where
  "settle_loop reads target tolerance count i =
     (if count < 3
      then Option.bind (wait_in_tolerance reads target tolerance count i)
             (\<lambda>(count', i'). settle_loop reads target tolerance (count' + 1) i')
      else Some i)"

text \<open>\<open>Some n\<close>: the call returns, after \<open>n\<close> readings; \<open>None\<close>: it never returns.\<close>

definition set_and_wait :: "(nat \<Rightarrow> real) \<Rightarrow> real \<Rightarrow> real \<Rightarrow> nat option" where
  "set_and_wait reads target tolerance = settle_loop reads target tolerance 0 0"

definition in_tolerance :: "(nat \<Rightarrow> real) \<Rightarrow> real \<Rightarrow> real \<Rightarrow> nat \<Rightarrow> bool" where
  "in_tolerance reads target tolerance i \<longleftrightarrow> \<bar>reads i - target\<bar> \<le> tolerance"

text \<open>Three consecutive readings within tolerance, starting with reading \<open>t\<close>.\<close>

definition settled_at :: "(nat \<Rightarrow> real) \<Rightarrow> real \<Rightarrow> real \<Rightarrow> nat \<Rightarrow> bool" where
  "settled_at reads target tol t \<longleftrightarrow>
     in_tolerance reads target tol t \<and> in_tolerance reads target tol (t + 1) \<and>
     in_tolerance reads target tol (t + 2)"

section \<open>Properties\<close>

subsection \<open>Chunking\<close>

lemma py_range_concat:
  "0 < n \<Longrightarrow> concat (map (\<lambda>i. slice arr i (i + n)) (py_range k (length arr) n)) = drop k arr"
proof (induction k "length arr" n rule: py_range.induct)
  case (1 i step)
  show ?case
  proof (cases "length arr \<le> i")
    case True
    then show ?thesis by (simp add: py_range.simps[of i])
  next
    case False
    with "1.prems" have ih:
      "concat (map (\<lambda>j. slice arr j (j + step)) (py_range (i + step) (length arr) step))
         = drop (i + step) arr"
      using "1.hyps" by simp
    have "drop i arr = take step (drop i arr) @ drop step (drop i arr)"
      by (rule append_take_drop_id[symmetric])
    also have "drop step (drop i arr) = drop (i + step) arr"
      by (simp add: add.commute)
    finally have split: "drop i arr = take step (drop i arr) @ drop (i + step) arr" .
    have "py_range i (length arr) step = i # py_range (i + step) (length arr) step"
      using False "1.prems" by (simp add: py_range.simps[of i])
    then show ?thesis
      using ih split by (simp add: slice_def)
  qed
qed

lemma py_range_lengths:
  "0 < n \<Longrightarrow> cs = map (\<lambda>i. slice arr i (i + n)) (py_range k (length arr) n) \<Longrightarrow>
     (\<forall>c \<in> set (butlast cs). length c = n) \<and>
     (cs \<noteq> [] \<longrightarrow> 1 \<le> length (last cs) \<and> length (last cs) \<le> n)"
proof (induction k "length arr" n arbitrary: cs rule: py_range.induct)
  case (1 i step)
  show ?case
  proof (cases "length arr \<le> i")
    case True
    with "1.prems" show ?thesis by (simp add: py_range.simps[of i])
  next
    case False
    define rest where "rest = map (\<lambda>j. slice arr j (j + step)) (py_range (i + step) (length arr) step)"
    have ih: "(\<forall>c \<in> set (butlast rest). length c = step) \<and>
              (rest \<noteq> [] \<longrightarrow> 1 \<le> length (last rest) \<and> length (last rest) \<le> step)"
      using "1.hyps"[of rest] False "1.prems"(1) rest_def by simp
    have cs: "cs = slice arr i (i + step) # rest"
      using "1.prems" False rest_def by (simp add: py_range.simps[of i])
    show ?thesis
    proof (cases "rest = []")
      case True
      with cs False "1.prems"(1) show ?thesis by (simp add: slice_def)
    next
      case nonempty: False
      then have "i + step < length arr"
        unfolding rest_def by (cases "length arr \<le> i + step") (simp_all add: py_range.simps[of "i + step"])
      then have "length (slice arr i (i + step)) = step"
        by (simp add: slice_def)
      with cs ih nonempty show ?thesis by simp
    qed
  qed
qed

lemma chunk_array_partition_aux:
  assumes "1 \<le> sz"
  shows "\<exists>cs. chunk_array arr sz = Inr cs \<and> concat cs = arr \<and>
           (\<forall>c \<in> set (butlast cs). length c = nat sz) \<and>
           (arr \<noteq> [] \<longrightarrow> cs \<noteq> [] \<and> 1 \<le> length (last cs) \<and> length (last cs) \<le> nat sz)"
proof -
  define cs where "cs = map (\<lambda>i. slice arr i (i + nat sz)) (py_range 0 (length arr) (nat sz))"
  have pos: "0 < nat sz" using assms by simp
  have run: "chunk_array arr sz = Inr cs"
    using assms by (simp add: chunk_array_def cs_def)
  have cat: "concat cs = arr"
    using py_range_concat[OF pos, of arr 0] by (simp add: cs_def)
  have lens: "(\<forall>c \<in> set (butlast cs). length c = nat sz) \<and>
              (cs \<noteq> [] \<longrightarrow> 1 \<le> length (last cs) \<and> length (last cs) \<le> nat sz)"
    using py_range_lengths[OF pos, of cs arr 0] by (simp add: cs_def)
  have "arr \<noteq> [] \<longrightarrow> cs \<noteq> []"
    using cat by auto
  with run cat lens show ?thesis by blast
qed

text \<open>
  C10. For a chunk size of at least 1, \<open>chunk_array\<close> returns without error, the
  concatenation of the chunks is the input, every chunk but the last has exactly
  \<open>sz\<close> elements, and for a non-empty input there is a last chunk, of between 1 and
  \<open>sz\<close> elements.
\<close>

theorem chunk_array_partition:
  assumes "1 \<le> sz"
  shows "\<exists>cs. chunk_array arr sz = Inr cs \<and> concat cs = arr \<and>
           (\<forall>c \<in> set (butlast cs). length c = nat sz) \<and>
           (arr \<noteq> [] \<longrightarrow> cs \<noteq> [] \<and> 1 \<le> length (last cs) \<and> length (last cs) \<le> nat sz)"
  using assms by (rule chunk_array_partition_aux)

theorem chunk_array_partition_witness:
  "(1::int) \<le> 2 \<and>
   (\<exists>cs. chunk_array [1, 2, 3, 4, 5 :: int] 2 = Inr cs \<and> concat cs = [1, 2, 3, 4, 5] \<and>
      (\<forall>c \<in> set (butlast cs). length c = nat 2) \<and>
      cs \<noteq> [] \<and> 1 \<le> length (last cs) \<and> length (last cs) \<le> nat 2)"
proof -
  have h: "(1::int) \<le> 2" by simp
  from chunk_array_partition[OF h, of "[1, 2, 3, 4, 5 :: int]"] h
  show ?thesis by blast
qed

subsection \<open>Segmenter\<close>

lemma concat_length_uniform:
  "cs \<noteq> [] \<Longrightarrow> \<forall>c \<in> set (butlast cs). length c = n \<Longrightarrow>
     length (concat cs) = (length cs - 1) * n + length (last cs)"
proof (induction cs)
  case Nil
  then show ?case by simp
next
  case (Cons c cs)
  show ?case
  proof (cases "cs = []")
    case True
    then show ?thesis by simp
  next
    case False
    with Cons.prems have "length c = n" and "\<forall>d \<in> set (butlast cs). length d = n"
      by simp_all
    with Cons.IH False show ?thesis
      by (cases cs) simp_all
  qed
qed

lemma six_chunks_arith:
  fixes m l n :: nat
  assumes "m * n + l = 5 * n + n div 2" and "1 \<le> l" and "l \<le> n" and "2 \<le> n"
  shows "m = 5 \<and> l = n div 2"
proof -
  have h: "1 \<le> n div 2" "n div 2 < n" using assms(4) by simp_all
  have "\<not> m \<le> 4"
  proof
    assume "m \<le> 4"
    then have "m * n \<le> 4 * n" by simp
    with assms h show False by linarith
  qed
  moreover have "\<not> 6 \<le> m"
  proof
    assume "6 \<le> m"
    then have "6 * n \<le> m * n" by simp
    with assms h show False by linarith
  qed
  ultimately have "m = 5" by linarith
  with assms(1) show ?thesis by simp
qed

text \<open>
  C4. For a positive period the Segmenter returns the chunks of \<open>chunk_array\<close>
  without the first one, whatever that chunk holds: the windows are exactly the
  samples after the first \<open>p\<close>, in consecutive chunks of length \<open>p\<close> (the last may be
  shorter). A trace of length \<open>5 * p + p div 2\<close> (with \<open>p = 100\<close>: 550 samples) gives
  6 chunks and 5 windows, the trailing window of length \<open>p div 2\<close> (50).
\<close>

theorem segmenter_drops_first_chunk:
  assumes "0 < p"
  shows "\<exists>cs. chunk_array tr p = Inr cs \<and> windows_of tr p = Inr (drop 1 cs) \<and>
           (tr \<noteq> [] \<longrightarrow> cs \<noteq> [] \<and> hd cs = take (nat p) tr) \<and>
           concat (drop 1 cs) = drop (nat p) tr \<and>
           (\<forall>c \<in> set (butlast cs). length c = nat p) \<and>
           (2 \<le> p \<and> length tr = 5 * nat p + nat p div 2 \<longrightarrow>
              length cs = 6 \<and> length (drop 1 cs) = 5 \<and>
              length (last (drop 1 cs)) = nat p div 2)"
proof -
  have one: "1 \<le> p" using assms by simp
  from chunk_array_partition_aux[OF one, of tr] obtain cs where
    run: "chunk_array tr p = Inr cs" and cat: "concat cs = tr" and
    full: "\<forall>c \<in> set (butlast cs). length c = nat p" and
    lst: "tr \<noteq> [] \<longrightarrow> cs \<noteq> [] \<and> 1 \<le> length (last cs) \<and> length (last cs) \<le> nat p"
    by blast
  have cs: "cs = map (\<lambda>i. slice tr i (i + nat p)) (py_range 0 (length tr) (nat p))"
    using run assms by (simp add: chunk_array_def split: if_splits)
  have win: "windows_of tr p = Inr (drop 1 cs)"
    using run assms by (simp add: windows_of_def)
  have pos: "0 < nat p" using assms by simp
  have hd_tl: "tr \<noteq> [] \<longrightarrow> cs = take (nat p) tr #
                 map (\<lambda>i. slice tr i (i + nat p)) (py_range (nat p) (length tr) (nat p))"
    using pos by (simp add: cs py_range.simps[of 0] slice_def)
  have rest: "concat (drop 1 cs) = drop (nat p) tr"
  proof (cases "tr = []")
    case True
    then show ?thesis by (simp add: cs py_range.simps[of 0])
  next
    case False
    with hd_tl py_range_concat[OF pos, of tr "nat p"] show ?thesis by simp
  qed
  have count: "length cs = 6 \<and> length (drop 1 cs) = 5 \<and> length (last (drop 1 cs)) = nat p div 2"
    if big: "2 \<le> p" and len: "length tr = 5 * nat p + nat p div 2"
  proof -
    have ne: "tr \<noteq> []" using big len by auto
    with lst have cne: "cs \<noteq> []" and l1: "1 \<le> length (last cs)" and l2: "length (last cs) \<le> nat p"
      by simp_all
    have "(length cs - 1) * nat p + length (last cs) = 5 * nat p + nat p div 2"
      using concat_length_uniform[OF cne full] cat len by simp
    from six_chunks_arith[OF this l1 l2] big
    have m: "length cs - 1 = 5" and l: "length (last cs) = nat p div 2" by simp_all
    from m have six: "length cs = 6" by simp
    then have "last (drop 1 cs) = last cs" by simp
    with six l show ?thesis by simp
  qed
  have first: "tr \<noteq> [] \<longrightarrow> cs \<noteq> [] \<and> hd cs = take (nat p) tr"
  proof
    assume "tr \<noteq> []"
    with hd_tl obtain r where "cs = take (nat p) tr # r" by blast
    then show "cs \<noteq> [] \<and> hd cs = take (nat p) tr" by simp
  qed
  from run win first rest full count show ?thesis by blast
qed

theorem segmenter_drops_first_chunk_witness:
  "(0::int) < 100 \<and> (2::int) \<le> 100 \<and>
   length (replicate 550 (0::real)) = 5 * nat 100 + nat 100 div 2 \<and>
   (\<exists>cs. chunk_array (replicate 550 (0::real)) 100 = Inr cs \<and>
      windows_of (replicate 550 0) 100 = Inr (drop 1 cs) \<and>
      length cs = 6 \<and> length (drop 1 cs) = 5 \<and> length (last (drop 1 cs)) = 50)"
proof -
  define tr where "tr = replicate 550 (0::real)"
  have h: "(0::int) < 100" and b: "(2::int) \<le> 100" by simp_all
  have len: "length tr = 5 * nat 100 + nat 100 div 2" by (simp add: tr_def)
  have half: "nat 100 div 2 = (50::nat)" by simp
  from segmenter_drops_first_chunk[OF h, of tr] b len obtain cs where
    "chunk_array tr 100 = Inr cs" "windows_of tr 100 = Inr (drop 1 cs)"
    "length cs = 6" "length (drop 1 cs) = 5" "length (last (drop 1 cs)) = nat 100 div 2"
    by blast
  with h b len half have
    "(0::int) < 100 \<and> (2::int) \<le> 100 \<and> length tr = 5 * nat 100 + nat 100 div 2 \<and>
     (\<exists>cs. chunk_array tr 100 = Inr cs \<and> windows_of tr 100 = Inr (drop 1 cs) \<and>
        length cs = 6 \<and> length (drop 1 cs) = 5 \<and> length (last (drop 1 cs)) = 50)"
    by metis
  then show ?thesis unfolding tr_def .
qed

subsection \<open>Peak Selector\<close>

lemma select_peak_mem:
  assumes "select_peak cands = Some i"
  shows "i \<in> fst ` set cands"
proof -
  define arr where "arr = sort_key (\<lambda>x. - snd x) cands"
  have ne: "cands \<noteq> []" using assms by (auto simp: select_peak_def)
  have set_arr: "set arr = set cands" and len_arr: "length arr = length cands"
    by (simp_all add: arr_def)
  show ?thesis
  proof (cases "length arr < 3")
    case True
    with assms ne have "i = fst (arr ! 0)"
      by (simp add: select_peak_def arr_def Let_def)
    moreover have "arr ! 0 \<in> set arr"
      using ne len_arr by (intro nth_mem) simp
    ultimately show ?thesis using set_arr by auto
  next
    case False
    define s where "s = sort_key fst (take 3 arr)"
    from False assms ne have i: "i = fst (s ! 1)"
      by (simp add: select_peak_def arr_def s_def Let_def)
    have "length s = 3" using False by (simp add: s_def)
    then have "s ! 1 \<in> set s" by (intro nth_mem) simp
    then have "s ! 1 \<in> set (take 3 arr)" by (simp add: s_def)
    then have "s ! 1 \<in> set arr" by (rule in_set_takeD)
    with i set_arr show ?thesis by auto
  qed
qed

lemma sorted_hd_least:
  "xs \<noteq> [] \<Longrightarrow> sorted (map f xs) \<Longrightarrow> y \<in> set xs \<Longrightarrow> f (hd xs) \<le> f y"
  by (cases xs) auto

lemma select_peak_few:
  assumes "length cands = 1 \<or> length cands = 2"
  shows "\<exists>i h. select_peak cands = Some i \<and> (i, h) \<in> set cands \<and> (\<forall>c \<in> set cands. snd c \<le> h)"
proof -
  define arr where "arr = sort_key (\<lambda>x. - snd x) cands"
  have ne: "cands \<noteq> []" using assms by auto
  have set_arr: "set arr = set cands" and len_arr: "length arr = length cands"
    by (simp_all add: arr_def)
  have arr_ne: "arr \<noteq> []" using ne len_arr by auto
  have short: "length arr < 3" using assms len_arr by auto
  have "arr ! 0 = hd arr" using arr_ne by (simp add: hd_conv_nth)
  with ne short have sel: "select_peak cands = Some (fst (hd arr))"
    by (simp add: select_peak_def Let_def arr_def[symmetric])
  have "hd arr \<in> set arr" using arr_ne by (rule hd_in_set)
  then have mem: "hd arr \<in> set cands" by (simp only: set_arr)
  have srt: "sorted (map (\<lambda>x. - snd x) arr)" by (simp add: arr_def)
  have "\<forall>c \<in> set cands. snd c \<le> snd (hd arr)"
  proof
    fix c assume "c \<in> set cands"
    then have "c \<in> set arr" using set_arr by simp
    from sorted_hd_least[OF arr_ne srt this] show "snd c \<le> snd (hd arr)" by simp
  qed
  with sel mem show ?thesis
    by (intro exI[of _ "fst (hd arr)"] exI[of _ "snd (hd arr)"]) simp
qed

lemma collect_heights_skip:
  "process_chunk find_peaks gauss_fit d chunk = Inr None \<Longrightarrow>
     collect_heights find_peaks gauss_fit d heights (chunk # chunks) =
     collect_heights find_peaks gauss_fit d heights chunks"
  by simp

lemma process_chunk_no_peaks:
  "find_peaks chunk = [] \<Longrightarrow> process_chunk find_peaks gauss_fit d chunk = Inr None"
  by (simp add: process_chunk_def candidates_def select_peak_def)

lemma sorted_take_drop_le:
  assumes "sorted (map f xs)" and "x \<in> set (take n xs)" and "y \<in> set (drop n xs)"
  shows "f x \<le> f y"
proof -
  have "sorted (map f (take n xs) @ map f (drop n xs))"
    using assms(1) by (simp only: map_append[symmetric] append_take_drop_id)
  then have "\<forall>a \<in> set (map f (take n xs)). \<forall>b \<in> set (map f (drop n xs)). a \<le> b"
    by (simp only: sorted_append) blast
  with assms(2,3) show ?thesis by simp
qed

lemma sorted3_distinct_strict:
  fixes x y z :: "nat \<times> real"
  assumes "sorted (map fst [x, y, z])" and "distinct (map fst [x, y, z])"
  shows "fst x < fst y \<and> fst y < fst z"
  using assms by (simp add: order_less_le)

lemma length3_cases:
  assumes "length s = 3"
  obtains x y z where "s = [x, y, z]"
proof -
  from assms obtain x s1 where s: "s = x # s1" and l1: "length s1 = 2"
    by (cases s) simp_all
  from l1 obtain y s2 where s1: "s1 = y # s2" and l2: "length s2 = 1"
    by (cases s1) simp_all
  from l2 obtain z where "s2 = [z]"
    by (cases s2) simp_all
  with s s1 that show thesis by simp
qed

lemma select_peak_top3:
  assumes many: "3 \<le> length cands" and dist: "distinct (map fst cands)"
  shows "\<exists>top3. length top3 = 3 \<and> set top3 \<subseteq> set cands \<and>
           (\<forall>x \<in> set top3. \<forall>y \<in> set cands - set top3. snd y \<le> snd x) \<and>
           (\<exists>lo mid hi. fst ` set top3 = {lo, mid, hi} \<and> lo < mid \<and> mid < hi \<and>
              select_peak cands = Some mid)"
proof -
  define arr where "arr = sort_key (\<lambda>x. - snd x) cands"
  define top3 where "top3 = take 3 arr"
  define s where "s = sort_key fst top3"
  have ne: "cands \<noteq> []" using many by auto
  have set_arr: "set arr = set cands" and len_arr: "length arr = length cands"
    by (simp_all add: arr_def)
  have srt: "sorted (map (\<lambda>x. - snd x) arr)" by (simp add: arr_def)
  have len3: "length top3 = 3" using many len_arr by (simp add: top3_def)
  have sub: "set top3 \<subseteq> set cands"
    using set_take_subset[of 3 arr] by (simp only: top3_def set_arr)
  have top: "\<forall>x \<in> set top3. \<forall>y \<in> set cands - set top3. snd y \<le> snd x"
  proof (intro ballI)
    fix x y assume x: "x \<in> set top3" and y: "y \<in> set cands - set top3"
    have "set arr = set (take 3 arr) \<union> set (drop 3 arr)"
      by (simp only: set_append[symmetric] append_take_drop_id)
    moreover from y have "y \<in> set arr" and "y \<notin> set (take 3 arr)"
      by (simp_all add: top3_def set_arr)
    ultimately have "y \<in> set (drop 3 arr)" by blast
    from sorted_take_drop_le[OF srt x[unfolded top3_def] this]
    show "snd y \<le> snd x" by simp
  qed
  have "distinct (map fst arr)"
    using dist by (simp add: arr_def distinct_map)
  then have "distinct (map fst (take 3 arr))"
    by (simp only: take_map[symmetric] distinct_take)
  then have dist_s: "distinct (map fst s)"
    by (simp add: s_def top3_def distinct_map)
  have srt_s: "sorted (map fst s)" by (simp add: s_def)
  have len_s: "length s = 3" using len3 by (simp add: s_def)
  have set_s: "set s = set top3" by (simp add: s_def)
  from len_s obtain x y z where xyz: "s = [x, y, z]" by (rule length3_cases)
  from sorted3_distinct_strict srt_s dist_s
  have strict: "fst x < fst y \<and> fst y < fst z" unfolding xyz by blast
  have img: "fst ` set top3 = {fst x, fst y, fst z}"
    by (simp add: set_s[symmetric] xyz)
  have "\<not> length arr < 3" using many len_arr by simp
  with ne have "select_peak cands = Some (fst (s ! 1))"
    by (simp add: select_peak_def Let_def arr_def[symmetric] top3_def[symmetric] s_def[symmetric])
  then have sel: "select_peak cands = Some (fst y)" by (simp add: xyz)
  from len3 sub top img strict sel show ?thesis by blast
qed

lemma candidates_mem:
  "x \<in> set (candidates chunk peaks) \<longleftrightarrow> fst x \<in> set peaks \<and> snd x = chunk ! fst x"
  by (cases x) (auto simp: candidates_def)

lemma select_peak_top3_window:
  assumes "3 \<le> length peaks" and "distinct peaks"
  shows "\<exists>lo mid hi. {lo, mid, hi} \<subseteq> set peaks \<and> lo < mid \<and> mid < hi \<and>
           (\<forall>q \<in> set peaks - {lo, mid, hi}.
              chunk ! q \<le> chunk ! lo \<and> chunk ! q \<le> chunk ! mid \<and> chunk ! q \<le> chunk ! hi) \<and>
           select_peak (candidates chunk peaks) = Some mid"
proof -
  let ?cands = "candidates chunk peaks"
  have "map fst ?cands = peaks"
    by (simp add: candidates_def comp_def)
  with assms have "3 \<le> length ?cands" and "distinct (map fst ?cands)"
    by (simp_all add: candidates_def)
  from select_peak_top3[OF this] obtain top3 lo mid hi where
    sub: "set top3 \<subseteq> set ?cands" and
    top: "\<forall>x \<in> set top3. \<forall>y \<in> set ?cands - set top3. snd y \<le> snd x" and
    img: "fst ` set top3 = {lo, mid, hi}" and
    ord: "lo < mid" "mid < hi" and
    sel: "select_peak ?cands = Some mid"
    by blast
  have member: "t \<in> set peaks \<and> (t, chunk ! t) \<in> set top3" if "t \<in> {lo, mid, hi}" for t
  proof -
    from that img have "t \<in> fst ` set top3" by simp
    then obtain x where x: "x \<in> set top3" and fx: "fst x = t" by blast
    from x sub have "x \<in> set ?cands" by blast
    then have "fst x \<in> set peaks" and "snd x = chunk ! fst x"
      by (simp_all add: candidates_mem)
    with fx have "t \<in> set peaks" and "x = (t, chunk ! t)"
      by (simp_all add: prod_eq_iff)
    with x show ?thesis by simp
  qed
  have below: "chunk ! q \<le> chunk ! t"
    if q: "q \<in> set peaks - {lo, mid, hi}" and t: "t \<in> {lo, mid, hi}" for q t
  proof -
    from q have in_cands: "(q, chunk ! q) \<in> set ?cands"
      by (simp add: candidates_mem)
    have "(q, chunk ! q) \<notin> set top3"
    proof
      assume "(q, chunk ! q) \<in> set top3"
      then have "fst (q, chunk ! q) \<in> fst ` set top3" by (rule imageI)
      with img q show False by simp
    qed
    with in_cands have "(q, chunk ! q) \<in> set ?cands - set top3" by simp
    moreover from member[OF t] have "(t, chunk ! t) \<in> set top3" by simp
    ultimately have "snd (q, chunk ! q) \<le> snd (t, chunk ! t)"
      using top by blast
    then show ?thesis by simp
  qed
  have "{lo, mid, hi} \<subseteq> set peaks"
    using member by blast
  moreover have "\<forall>q \<in> set peaks - {lo, mid, hi}.
      chunk ! q \<le> chunk ! lo \<and> chunk ! q \<le> chunk ! mid \<and> chunk ! q \<le> chunk ! hi"
    using below by blast
  ultimately show ?thesis using ord sel by blast
qed

lemma select_peak_few_window:
  assumes "length peaks = 1 \<or> length peaks = 2"
  shows "\<exists>i. select_peak (candidates chunk peaks) = Some i \<and> i \<in> set peaks \<and>
           (\<forall>q \<in> set peaks. chunk ! q \<le> chunk ! i)"
proof -
  let ?cands = "candidates chunk peaks"
  from assms have "length ?cands = 1 \<or> length ?cands = 2"
    by (simp add: candidates_def)
  from select_peak_few[OF this] obtain i h where
    sel: "select_peak ?cands = Some i" and ih: "(i, h) \<in> set ?cands" and
    top: "\<forall>c \<in> set ?cands. snd c \<le> h"
    by blast
  from ih have i: "i \<in> set peaks" and h: "h = chunk ! i"
    by (simp_all add: candidates_mem)
  have "\<forall>q \<in> set peaks. chunk ! q \<le> chunk ! i"
  proof
    fix q assume "q \<in> set peaks"
    then have "(q, chunk ! q) \<in> set ?cands" by (simp add: candidates_mem)
    with top have "snd (q, chunk ! q) \<le> h" by blast
    with h show "chunk ! q \<le> chunk ! i" by simp
  qed
  with sel i show ?thesis by blast
qed

text \<open>
  C3. When \<^verbatim>\<open>find_peaks\<close> reports at least 3 peaks (at distinct positions of the
  window) in a window, there are three of them, at the positions \<open>lo < mid < hi\<close>, such that no
  other reported peak has a sample higher than the sample at any of the three, and
  the selected index is \<open>mid\<close>, the middle one of the three positions. The height of
  a peak is the sample of the window at its position.
\<close>

theorem peak_selector_median_of_top3:
  assumes "3 \<le> length (find_peaks chunk)" and "distinct (find_peaks chunk)"
    and "\<forall>p \<in> set (find_peaks chunk). p < length chunk"
  shows "\<exists>lo mid hi. {lo, mid, hi} \<subseteq> set (find_peaks chunk) \<and> lo < mid \<and> mid < hi \<and>
           (\<forall>q \<in> set (find_peaks chunk) - {lo, mid, hi}.
              chunk ! q \<le> chunk ! lo \<and> chunk ! q \<le> chunk ! mid \<and> chunk ! q \<le> chunk ! hi) \<and>
           select_peak (candidates chunk (find_peaks chunk)) = Some mid"
  using assms(1,2) by (rule select_peak_top3_window)

text \<open>A window with five peaks, at the positions 1, 3, 5, 7 and 9 with the heights 9, 1,
  8, 2 and 7: the three highest are at 1, 5 and 9, and the selected index is 5. The
  example of the specification: peaks at the positions 5, 50 and 95 with the heights 3,
  9 and 1; the selected index is 50.\<close>

theorem peak_selector_median_of_top3_witness:
  "strict_local_maxima [0, 9, 0, 1, 0, 8, 0, 2, 0, 7, 0] = [1, 3, 5, 7, 9] \<and>
   3 \<le> length (strict_local_maxima [0, 9, 0, 1, 0, 8, 0, 2, 0, 7, 0]) \<and>
   distinct (strict_local_maxima [0, 9, 0, 1, 0, 8, 0, 2, 0, 7, 0]) \<and>
   9 < length [0, 9, 0, 1, 0, 8, 0, 2, 0, 7, 0 :: real] \<and>
   (\<exists>lo mid hi. {lo, mid, hi} \<subseteq> set (strict_local_maxima [0, 9, 0, 1, 0, 8, 0, 2, 0, 7, 0]) \<and>
      lo < mid \<and> mid < hi \<and>
      (\<forall>q \<in> set (strict_local_maxima [0, 9, 0, 1, 0, 8, 0, 2, 0, 7, 0]) - {lo, mid, hi}.
         [0, 9, 0, 1, 0, 8, 0, 2, 0, 7, 0 :: real] ! q \<le> [0, 9, 0, 1, 0, 8, 0, 2, 0, 7, 0] ! lo \<and>
         [0, 9, 0, 1, 0, 8, 0, 2, 0, 7, 0 :: real] ! q \<le> [0, 9, 0, 1, 0, 8, 0, 2, 0, 7, 0] ! mid \<and>
         [0, 9, 0, 1, 0, 8, 0, 2, 0, 7, 0 :: real] ! q \<le> [0, 9, 0, 1, 0, 8, 0, 2, 0, 7, 0] ! hi) \<and>
      select_peak (candidates [0, 9, 0, 1, 0, 8, 0, 2, 0, 7, 0]
        (strict_local_maxima [0, 9, 0, 1, 0, 8, 0, 2, 0, 7, 0])) = Some mid) \<and>
   select_peak (candidates [0, 9, 0, 1, 0, 8, 0, 2, 0, 7, 0]
     (strict_local_maxima [0, 9, 0, 1, 0, 8, 0, 2, 0, 7, 0])) = Some 5 \<and>
   strict_local_maxima example_window = [5, 50, 95] \<and>
   map (\<lambda>p. example_window ! p) [5, 50, 95] = [3, 9, 1] \<and>
   select_peak (candidates example_window (strict_local_maxima example_window)) = Some 50"
proof -
  let ?w = "[0, 9, 0, 1, 0, 8, 0, 2, 0, 7, 0 :: real]"
  have slm: "strict_local_maxima ?w = [1, 3, 5, 7, 9]" by code_simp
  have h: "3 \<le> length (strict_local_maxima ?w)" "distinct (strict_local_maxima ?w)"
    by (simp_all add: slm)
  have r: "\<forall>p \<in> set (strict_local_maxima ?w). p < length ?w"
    by (simp add: slm)
  have nine: "9 < length ?w" by simp
  note general = peak_selector_median_of_top3[of strict_local_maxima ?w, OF h r]
  have five: "select_peak (candidates ?w (strict_local_maxima ?w)) = Some 5"
    by (simp add: slm select_peak_def candidates_def)
  have slm_ex: "strict_local_maxima example_window = [5, 50, 95]" by code_simp
  have heights_ex: "map (\<lambda>p. example_window ! p) [5, 50, 95] = [3, 9, 1]"
    by (simp add: example_window_def)
  have fifty: "select_peak (candidates example_window (strict_local_maxima example_window)) = Some 50"
    using heights_ex by (simp add: slm_ex select_peak_def candidates_def)
  from general slm h nine five slm_ex heights_ex fifty show ?thesis by blast
qed

text \<open>
  C7. With no detected peak the selector returns no index, the window is skipped and
  leaves the accumulated amplitudes unchanged; with one or two detected peaks (at
  positions of the window) the selected index is the position of a detected peak whose sample no other detected
  peak's sample exceeds.
\<close>

theorem peak_selector_few_peaks:
  "select_peak [] = None \<and>
   (find_peaks chunk = [] \<longrightarrow>
      process_chunk find_peaks gauss_fit d chunk = Inr None \<and>
      collect_heights find_peaks gauss_fit d heights (chunk # chunks) =
        collect_heights find_peaks gauss_fit d heights chunks) \<and>
   ((\<forall>p \<in> set (find_peaks chunk). p < length chunk) \<and>
    (length (find_peaks chunk) = 1 \<or> length (find_peaks chunk) = 2) \<longrightarrow>
      (\<exists>i. select_peak (candidates chunk (find_peaks chunk)) = Some i \<and>
         i \<in> set (find_peaks chunk) \<and>
         (\<forall>q \<in> set (find_peaks chunk). chunk ! q \<le> chunk ! i)))"
proof (intro conjI impI)
  show "select_peak [] = None" by (simp add: select_peak_def)
next
  assume "find_peaks chunk = []"
  then show "process_chunk find_peaks gauss_fit d chunk = Inr None"
    by (rule process_chunk_no_peaks)
next
  assume "find_peaks chunk = []"
  then have "process_chunk find_peaks gauss_fit d chunk = Inr None"
    by (rule process_chunk_no_peaks)
  then show "collect_heights find_peaks gauss_fit d heights (chunk # chunks) =
        collect_heights find_peaks gauss_fit d heights chunks"
    by (rule collect_heights_skip)
next
  assume "(\<forall>p \<in> set (find_peaks chunk). p < length chunk) \<and>
    (length (find_peaks chunk) = 1 \<or> length (find_peaks chunk) = 2)"
  then have "length (find_peaks chunk) = 1 \<or> length (find_peaks chunk) = 2" ..
  then show "\<exists>i. select_peak (candidates chunk (find_peaks chunk)) = Some i \<and>
         i \<in> set (find_peaks chunk) \<and>
         (\<forall>q \<in> set (find_peaks chunk). chunk ! q \<le> chunk ! i)"
    by (rule select_peak_few_window)
qed

text \<open>A window without a peak, and a window with the two peaks 3 (at position 1) and 9
  (at position 3), where the selected index is 3.\<close>

theorem peak_selector_few_peaks_witness:
  "strict_local_maxima [3, 2, 1] = [] \<and>
   process_chunk strict_local_maxima (\<lambda>xs ys p0. Some p0) 5 [3, 2, 1] = Inr None \<and>
   collect_heights strict_local_maxima (\<lambda>xs ys p0. Some p0) 5 [2] [[3, 2, 1]] =
     collect_heights strict_local_maxima (\<lambda>xs ys p0. Some p0) 5 [2] [] \<and>
   strict_local_maxima [0, 3, 0, 9, 0] = [1, 3] \<and>
   3 < length [0, 3, 0, 9, 0 :: real] \<and>
   (length (strict_local_maxima [0, 3, 0, 9, 0]) = 1 \<or>
    length (strict_local_maxima [0, 3, 0, 9, 0]) = 2) \<and>
   (\<exists>i. select_peak (candidates [0, 3, 0, 9, 0] (strict_local_maxima [0, 3, 0, 9, 0])) = Some i \<and>
      i \<in> set (strict_local_maxima [0, 3, 0, 9, 0]) \<and>
      (\<forall>q \<in> set (strict_local_maxima [0, 3, 0, 9, 0]).
         [0, 3, 0, 9, 0 :: real] ! q \<le> [0, 3, 0, 9, 0] ! i)) \<and>
   select_peak (candidates [0, 3, 0, 9, 0] (strict_local_maxima [0, 3, 0, 9, 0])) = Some 3"
proof -
  have h1: "strict_local_maxima [3, 2, 1] = []"
    by (simp add: strict_local_maxima_def)
  have slm: "strict_local_maxima [0, 3, 0, 9, 0] = [1, 3]" by code_simp
  have h2: "length (strict_local_maxima [0, 3, 0, 9, 0]) = 1 \<or>
      length (strict_local_maxima [0, 3, 0, 9, 0]) = 2"
    by (simp add: slm)
  note none = peak_selector_few_peaks[of strict_local_maxima "[3, 2, 1]"
      "\<lambda>xs ys p0. Some p0" 5 "[2]" "[]", THEN conjunct2, THEN conjunct1]
  note two = peak_selector_few_peaks[of strict_local_maxima "[0, 3, 0, 9, 0]"
      "\<lambda>xs ys p0. Some p0" 5 "[2]" "[]", THEN conjunct2, THEN conjunct2]
  have three: "select_peak (candidates [0, 3, 0, 9, 0] (strict_local_maxima [0, 3, 0, 9, 0])) = Some 3"
    by (simp add: slm select_peak_def candidates_def)
  have r: "\<forall>p \<in> set (strict_local_maxima [0, 3, 0, 9, 0]). p < length [0, 3, 0, 9, 0 :: real]"
    by (simp add: slm)
  have len: "3 < length [0, 3, 0, 9, 0 :: real]" by simp
  from none two h1 slm r len h2 three show ?thesis by blast
qed

subsection \<open>Amplitude Aggregator\<close>

text \<open>
  C6. No amplitude gives \<open>(NaN, NaN)\<close>; otherwise the result is the mean and the
  population standard deviation (the root of the mean squared deviation from the mean,
  divisor \<open>n\<close>); the amplitudes 1 and 3 give mean 2 and standard deviation 1.
\<close>

theorem aggregate_population_statistics:
  "aggregate [] = (NaN, NaN) \<and>
   (heights \<noteq> [] \<longrightarrow>
      aggregate heights =
        (Fin (sum_list heights / real (length heights)),
         Fin (sqrt ((\<Sum>x\<leftarrow>heights. (x - sum_list heights / real (length heights)) ^ 2)
                     / real (length heights))))) \<and>
   aggregate [1, 3] = (Fin 2, Fin 1)"
  by (simp add: aggregate_def np_mean_def np_std_def)

theorem aggregate_population_statistics_witness:
  "[1, 3 :: real] \<noteq> [] \<and>
   aggregate [1, 3] =
     (Fin (sum_list [1, 3] / real (length [1, 3 :: real])),
      Fin (sqrt ((\<Sum>x\<leftarrow>[1, 3]. (x - sum_list [1, 3] / real (length [1, 3 :: real])) ^ 2)
                  / real (length [1, 3 :: real]))))"
proof -
  have h: "[1, 3 :: real] \<noteq> []" by simp
  from aggregate_population_statistics[of "[1, 3]"] h show ?thesis by blast
qed

subsection \<open>Local Gaussian Estimator\<close>

lemma delay_samples_of_max:
  "delay_samples_of float_mul delay_seconds rate = max 1 \<lfloor>float_mul delay_seconds rate / 2\<rfloor>"
  by (simp add: delay_samples_of_def Let_def max_def)

lemma delay_samples_of_pos: "1 \<le> delay_samples_of float_mul delay_seconds rate"
  by (simp add: delay_samples_of_max)

lemma process_chunk_selected:
  assumes ne: "chunk \<noteq> []"
    and inr: "\<forall>p \<in> set (find_peaks chunk). p < length chunk"
    and sel: "select_peak (candidates chunk (find_peaks chunk)) = Some idx"
    and low: "low = max 0 (int idx - d)"
    and high: "high = min (int (length chunk)) (int idx + d)"
  shows "process_chunk find_peaks gauss_fit d chunk =
           (if high - low < 3 then Inr None
            else Inr (map_option fst
                   (gauss_fit (map real_of_int [low..high - 1]) (slice chunk (nat low) (nat high))
                      (Max (set (slice chunk (nat low) (nat high))), real idx,
                       max 1 (real_of_int (high - low) / 6)))))"
proof -
  have "\<not> (\<exists>p \<in> set (find_peaks chunk). length chunk \<le> p)"
    using inr by (auto simp: not_le)
  with ne sel show ?thesis
    unfolding process_chunk_def low high
    by (simp add: Let_def split: option.split prod.split)
qed

lemma selected_in_range:
  assumes inr: "\<forall>p \<in> set (find_peaks chunk). p < length chunk"
    and sel: "select_peak (candidates chunk (find_peaks chunk)) = Some idx"
  shows "idx < length chunk"
proof -
  from select_peak_mem[OF sel] have "idx \<in> set (find_peaks chunk)"
    by (auto simp: candidates_def)
  with inr show ?thesis by blast
qed

text \<open>
  C5. For the selected index \<open>idx\<close> of a window of length \<open>L\<close> and
  \<open>d = max 1 \<lfloor>delay * rate / 2\<rfloor>\<close>, with the product \<open>delay * rate\<close> as Python
  computes it (\<open>float_mul\<close>), the bounds \<open>low = max 0 (idx - d)\<close> and
  \<open>high = min L (idx + d)\<close> enclose \<open>idx\<close> and delimit \<open>high - low\<close> samples of the
  window. With fewer than 3 of them the window is skipped whatever the fit routine is
  (it is not called) and the amplitudes stay as they are; otherwise the fit is called on
  exactly the abscissae \<open>low, ..., high - 1\<close> and the samples \<open>chunk[low:high]\<close>, and its
  amplitude, if it returns one, is the result.
\<close>

theorem gaussian_sub_window:
  assumes "chunk \<noteq> []"
    and "\<forall>p \<in> set (find_peaks chunk). p < length chunk"
    and "select_peak (candidates chunk (find_peaks chunk)) = Some idx"
    and "d = delay_samples_of float_mul delay_seconds rate"
    and "low = max 0 (int idx - d)"
    and "high = min (int (length chunk)) (int idx + d)"
  shows "d = max 1 \<lfloor>float_mul delay_seconds rate / 2\<rfloor> \<and>
         0 \<le> low \<and> low \<le> int idx \<and> int idx < high \<and> high \<le> int (length chunk) \<and>
         length (slice chunk (nat low) (nat high)) = nat (high - low) \<and>
         (high - low < 3 \<longrightarrow>
            process_chunk find_peaks gauss_fit d chunk = Inr None \<and>
            collect_heights find_peaks gauss_fit d heights (chunk # chunks) =
              collect_heights find_peaks gauss_fit d heights chunks) \<and>
         (3 \<le> high - low \<longrightarrow>
            process_chunk find_peaks gauss_fit d chunk =
              Inr (map_option fst
                (gauss_fit (map real_of_int [low..high - 1]) (slice chunk (nat low) (nat high))
                   (Max (set (slice chunk (nat low) (nat high))), real idx,
                    max 1 (real_of_int (high - low) / 6)))))"
proof -
  have d: "d = max 1 \<lfloor>float_mul delay_seconds rate / 2\<rfloor>"
    using assms(4) by (simp only: delay_samples_of_max)
  have dpos: "1 \<le> d" using assms(4) by (simp only: delay_samples_of_pos)
  have idx: "idx < length chunk"
    using assms(2,3) by (rule selected_in_range)
  have bounds: "0 \<le> low \<and> low \<le> int idx \<and> int idx < high \<and> high \<le> int (length chunk)"
    using dpos idx assms(5,6) by auto
  then have len: "length (slice chunk (nat low) (nat high)) = nat (high - low)"
    by (auto simp: slice_def)
  have run: "process_chunk find_peaks gauss_fit d chunk =
           (if high - low < 3 then Inr None
            else Inr (map_option fst
                   (gauss_fit (map real_of_int [low..high - 1]) (slice chunk (nat low) (nat high))
                      (Max (set (slice chunk (nat low) (nat high))), real idx,
                       max 1 (real_of_int (high - low) / 6)))))"
    using assms(1,2,3,5,6) by (rule process_chunk_selected)
  have skip: "collect_heights find_peaks gauss_fit d heights (chunk # chunks) =
              collect_heights find_peaks gauss_fit d heights chunks" if "high - low < 3"
    using run that by (intro collect_heights_skip) simp
  from d bounds len run skip show ?thesis by simp
qed

theorem gaussian_sub_window_witness:
  "[0, 1, 4, 9, 4, 1, 0 :: real] \<noteq> [] \<and>
   strict_local_maxima [0, 1, 4, 9, 4, 1, 0] = [3] \<and> 3 < length [0, 1, 4, 9, 4, 1, 0 :: real] \<and>
   select_peak (candidates [0, 1, 4, 9, 4, 1, 0] (strict_local_maxima [0, 1, 4, 9, 4, 1, 0])) = Some 3 \<and>
   (2::int) = delay_samples_of (*) 1 4 \<and>
   (1::int) = max 0 (int 3 - 2) \<and>
   (5::int) = min (int (length [0, 1, 4, 9, 4, 1, 0 :: real])) (int 3 + 2) \<and>
   3 \<le> (5::int) - 1 \<and>
   process_chunk strict_local_maxima (\<lambda>xs ys p0. Some p0) 2 [0, 1, 4, 9, 4, 1, 0] =
     Inr (map_option fst
       ((\<lambda>xs ys p0. Some p0) (map real_of_int [1..5 - 1]) (slice [0, 1, 4, 9, 4, 1, 0] (nat 1) (nat 5))
          (Max (set (slice [0, 1, 4, 9, 4, 1, 0] (nat 1) (nat 5))), real 3,
           max 1 (real_of_int (5 - 1) / 6)))) \<and>
   (1::int) = delay_samples_of (*) 1 1 \<and>
   (2::int) = max 0 (int 3 - 1) \<and>
   (4::int) = min (int (length [0, 1, 4, 9, 4, 1, 0 :: real])) (int 3 + 1) \<and>
   (4::int) - 2 < 3 \<and>
   process_chunk strict_local_maxima (\<lambda>xs ys p0. Some p0) 1 [0, 1, 4, 9, 4, 1, 0] = Inr None"
proof -
  have h1: "[0, 1, 4, 9, 4, 1, 0 :: real] \<noteq> []" by simp
  have slm: "strict_local_maxima [0, 1, 4, 9, 4, 1, 0] = [3]" by code_simp
  have h2: "\<forall>p \<in> set (strict_local_maxima [0, 1, 4, 9, 4, 1, 0]). p < length [0, 1, 4, 9, 4, 1, 0 :: real]"
    by (simp add: slm)
  have h3: "select_peak (candidates [0, 1, 4, 9, 4, 1, 0] (strict_local_maxima [0, 1, 4, 9, 4, 1, 0])) = Some 3"
    by (simp add: slm select_peak_def candidates_def)
  have h4: "(2::int) = delay_samples_of (*) 1 4" by (simp add: delay_samples_of_def)
  have h5: "(1::int) = max 0 (int 3 - 2)" by simp
  have h6: "(5::int) = min (int (length [0, 1, 4, 9, 4, 1, 0 :: real])) (int 3 + 2)" by simp
  have h7: "3 \<le> (5::int) - 1" by simp
  have k4: "(1::int) = delay_samples_of (*) 1 1" by (simp add: delay_samples_of_def)
  have k5: "(2::int) = max 0 (int 3 - 1)" by simp
  have k6: "(4::int) = min (int (length [0, 1, 4, 9, 4, 1, 0 :: real])) (int 3 + 1)" by simp
  have k7: "(4::int) - 2 < 3" by simp
  note fit = gaussian_sub_window[where chunk = "[0, 1, 4, 9, 4, 1, 0]"
      and find_peaks = strict_local_maxima and idx = 3 and d = 2 and float_mul = "(*)" and delay_seconds = 1
      and rate = 4 and low = 1 and high = 5 and gauss_fit = "\<lambda>xs ys p0. Some p0",
      OF h1 h2 h3 h4 h5 h6]
  note skip = gaussian_sub_window[where chunk = "[0, 1, 4, 9, 4, 1, 0]"
      and find_peaks = strict_local_maxima and idx = 3 and d = 1 and float_mul = "(*)" and delay_seconds = 1
      and rate = 1 and low = 2 and high = 4 and gauss_fit = "\<lambda>xs ys p0. Some p0",
      OF h1 h2 h3 k4 k5 k6]
  have in_range: "3 < length [0, 1, 4, 9, 4, 1, 0 :: real]" by simp
  from fit skip h1 slm in_range h3 h4 h5 h6 h7 k4 k5 k6 k7
  show ?thesis by blast
qed

subsection \<open>Visibility Fitter\<close>

lemma foldl_py_max:
  "foldl (\<lambda>m v. if pf_gt v m then v else m) (Fin x) (map Fin xs) = Fin (fold max xs x)"
proof (induction xs arbitrary: x)
  case Nil
  show ?case by simp
next
  case (Cons y ys)
  have "(if pf_gt (Fin y) (Fin x) then Fin y else Fin x) = Fin (max y x)"
    by (simp add: max_def)
  then show ?case using Cons.IH[of "max y x"] by simp
qed

lemma foldl_py_min:
  "foldl (\<lambda>m v. if pf_lt v m then v else m) (Fin x) (map Fin xs) = Fin (fold min xs x)"
proof (induction xs arbitrary: x)
  case Nil
  show ?case by simp
next
  case (Cons y ys)
  have "(if pf_lt (Fin y) (Fin x) then Fin y else Fin x) = Fin (min y x)"
    by (simp add: min_def)
  then show ?case using Cons.IH[of "min y x"] by simp
qed

lemma py_max_finite:
  assumes "ms \<noteq> []"
  shows "py_max (map Fin ms) = Inr (Fin (Max (set ms)))"
proof -
  from assms obtain x xs where ms: "ms = x # xs" by (cases ms) auto
  have "py_max (map Fin (x # xs)) = Inr (Fin (fold max xs x))"
    by (simp add: py_max_def foldl_py_max)
  also have "fold max xs x = Max (set (x # xs))"
    by (rule Max.set_eq_fold[symmetric])
  finally show ?thesis by (simp only: ms)
qed

lemma py_min_finite:
  assumes "ms \<noteq> []"
  shows "py_min (map Fin ms) = Inr (Fin (Min (set ms)))"
proof -
  from assms obtain x xs where ms: "ms = x # xs" by (cases ms) auto
  have "py_min (map Fin (x # xs)) = Inr (Fin (fold min xs x))"
    by (simp add: py_min_def foldl_py_min)
  also have "fold min xs x = Min (set (x # xs))"
    by (rule Min.set_eq_fold[symmetric])
  finally show ?thesis by (simp only: ms)
qed

lemma raw_visibility_finite:
  assumes "ms \<noteq> []" and "Max (set ms) + Min (set ms) \<noteq> 0"
  shows "raw_visibility (map Fin ms) =
           Inr (Fin ((Max (set ms) - Min (set ms)) / (Max (set ms) + Min (set ms))))"
  using assms by (simp add: raw_visibility_def py_max_finite py_min_finite)

lemma fa_ex: "fit_arguments [Fin 20, Fin 21] [Fin 1, Fin 3] =
    Inr ([Fin 20, Fin 21], [Fin 1, Fin 3], (Fin 1, Fin 2, Fin (2 * pi), Fin 0))"
  by (simp add: fit_arguments_def initial_guess_def np_min_def np_max_def)

lemma fa_nan: "fit_arguments [Fin 20, Fin 21, Fin 22] [Fin 1, NaN, Fin 3] =
    Inr ([Fin 20, Fin 21, Fin 22], [Fin 1, NaN, Fin 3], (NaN, NaN, Fin pi, Fin 0))"
  by (simp add: fit_arguments_def initial_guess_def np_min_def np_max_def)

lemma fa_neg: "fit_arguments [Fin 20, Fin 21] [Fin (- 1), Fin 3] =
    Inr ([Fin 20, Fin 21], [Fin (- 1), Fin 3], (Fin (- 1), Fin 4, Fin (2 * pi), Fin 0))"
  by (simp add: fit_arguments_def initial_guess_def np_min_def np_max_def)

lemma fit_arguments_total:
  assumes "temps \<noteq> []" and "length temps = length means"
  shows "\<exists>p0. fit_arguments temps means = Inr (temps, means, p0)"
proof -
  from assms have "means \<noteq> []" by auto
  with assms(1) show ?thesis
    by (simp add: fit_arguments_def initial_guess_def Let_def)
qed

lemma main_report_try:
  assumes "temps \<noteq> []" and "length temps = length means"
    and "errorbar temps means std = None"
    and "fit_arguments temps means = Inr (temps, means, p0)"
  shows "main_report errorbar cos2_fit temps means std =
           (case cos2_fit temps means p0 of
              Inl e \<Rightarrow> Inr [FitFailed e]
            | Inr (A, B, k, phi) \<Rightarrow>
                Inr (FittedVisibility (visibility A B) #
                  (case raw_visibility means of
                     Inl e \<Rightarrow> [FitFailed e]
                   | Inr raw \<Rightarrow> [RawVisibility raw])))"
proof -
  from assms(1,2) have "means \<noteq> []" by auto
  with assms show ?thesis
    by (simp add: main_report_def)
qed

text \<open>
  C1, as the program behaves. On columns that have been plotted (non-empty, of equal
  length, accepted by \<^verbatim>\<open>errorbar\<close>) the initial guess exists, and when the fit raises,
  the only output is the failure message: neither a fitted visibility nor a raw
  visibility is reported. The raw visibility \<open>(max - min) / (max + min)\<close> of the means
  is reported after the fitted one, when the fit has returned (here for finite means
  whose extremes do not cancel).
\<close>

theorem fit_failure_reports_message_only:
  assumes "temps \<noteq> []" and "length temps = length means"
    and "errorbar temps means std = None"
  shows "\<exists>p0. fit_arguments temps means = Inr (temps, means, p0) \<and>
           (cos2_fit temps means p0 = Inl e \<longrightarrow>
              main_report errorbar cos2_fit temps means std = Inr [FitFailed e]) \<and>
           (cos2_fit temps means p0 = Inr (A, B, k, phi) \<and>
            means = map Fin ms \<and> Max (set ms) + Min (set ms) \<noteq> 0 \<longrightarrow>
              main_report errorbar cos2_fit temps means std =
                Inr [FittedVisibility (visibility A B),
                     RawVisibility
                       (Fin ((Max (set ms) - Min (set ms)) / (Max (set ms) + Min (set ms))))])"
proof -
  from fit_arguments_total[OF assms(1,2)] obtain p0 where
    fa: "fit_arguments temps means = Inr (temps, means, p0)" by blast
  note run = main_report_try[where errorbar = errorbar and cos2_fit = cos2_fit
      and temps = temps and means = means and std = std and ?p0.0 = p0, OF assms fa]
  have failed: "main_report errorbar cos2_fit temps means std = Inr [FitFailed e]"
    if "cos2_fit temps means p0 = Inl e"
    using run that by simp
  have fitted: "main_report errorbar cos2_fit temps means std =
      Inr [FittedVisibility (visibility A B),
           RawVisibility (Fin ((Max (set ms) - Min (set ms)) / (Max (set ms) + Min (set ms))))]"
    if cf: "cos2_fit temps means p0 = Inr (A, B, k, phi)" and ms: "means = map Fin ms"
      and nz: "Max (set ms) + Min (set ms) \<noteq> 0"
  proof -
    from assms(1,2) ms have "ms \<noteq> []" by auto
    from raw_visibility_finite[OF this nz] ms have "raw_visibility means =
        Inr (Fin ((Max (set ms) - Min (set ms)) / (Max (set ms) + Min (set ms))))"
      by simp
    with run cf show ?thesis by simp
  qed
  from fa failed fitted show ?thesis by blast
qed

text \<open>A sweep with a \<open>NaN\<close> mean, on which the fit raises, and a sweep with the means 1
  and 3, on which it returns.\<close>

theorem fit_failure_reports_message_only_witness:
  "[Fin 20, Fin 21, Fin 22] \<noteq> [] \<and>
   length [Fin 20, Fin 21, Fin 22] = length [Fin 1, NaN, Fin 3] \<and>
   errorbar_same_length [Fin 20, Fin 21, Fin 22] [Fin 1, NaN, Fin 3] [Fin 0, NaN, Fin 0] = None \<and>
   fit_arguments [Fin 20, Fin 21, Fin 22] [Fin 1, NaN, Fin 3] =
     Inr ([Fin 20, Fin 21, Fin 22], [Fin 1, NaN, Fin 3], (NaN, NaN, Fin pi, Fin 0)) \<and>
   checked_fit [Fin 20, Fin 21, Fin 22] [Fin 1, NaN, Fin 3] (NaN, NaN, Fin pi, Fin 0) =
     Inl ValueError \<and>
   main_report errorbar_same_length checked_fit
     [Fin 20, Fin 21, Fin 22] [Fin 1, NaN, Fin 3] [Fin 0, NaN, Fin 0] = Inr [FitFailed ValueError] \<and>
   [Fin 20, Fin 21] \<noteq> [] \<and> length [Fin 20, Fin 21] = length [Fin 1, Fin 3] \<and>
   errorbar_same_length [Fin 20, Fin 21] [Fin 1, Fin 3] [Fin 0, Fin 0] = None \<and>
   fit_arguments [Fin 20, Fin 21] [Fin 1, Fin 3] =
     Inr ([Fin 20, Fin 21], [Fin 1, Fin 3], (Fin 1, Fin 2, Fin (2 * pi), Fin 0)) \<and>
   checked_fit [Fin 20, Fin 21] [Fin 1, Fin 3] (Fin 1, Fin 2, Fin (2 * pi), Fin 0) =
     Inr (Fin 1, Fin 2, Fin (2 * pi), Fin 0) \<and>
   [Fin 1, Fin 3] = map Fin [1, 3] \<and> Max (set [1, 3 :: real]) + Min (set [1, 3]) \<noteq> 0 \<and>
   main_report errorbar_same_length checked_fit [Fin 20, Fin 21] [Fin 1, Fin 3] [Fin 0, Fin 0] =
     Inr [FittedVisibility (visibility (Fin 1) (Fin 2)),
          RawVisibility
            (Fin ((Max (set [1, 3]) - Min (set [1, 3])) / (Max (set [1, 3]) + Min (set [1, 3]))))]"
proof -
  let ?T3 = "[Fin 20, Fin 21, Fin 22]" and ?M3 = "[Fin 1, NaN, Fin 3]" and ?S3 = "[Fin 0, NaN, Fin 0]"
  let ?T2 = "[Fin 20, Fin 21]" and ?M2 = "[Fin 1, Fin 3]" and ?S2 = "[Fin 0, Fin 0]"
  have t3: "?T3 \<noteq> []" and l3: "length ?T3 = length ?M3" by simp_all
  have e3: "errorbar_same_length ?T3 ?M3 ?S3 = None" by (simp add: errorbar_same_length_def)
  have c3: "checked_fit ?T3 ?M3 (NaN, NaN, Fin pi, Fin 0) = Inl ValueError"
    by (simp add: checked_fit_def)
  have t2: "?T2 \<noteq> []" and l2: "length ?T2 = length ?M2" by simp_all
  have e2: "errorbar_same_length ?T2 ?M2 ?S2 = None" by (simp add: errorbar_same_length_def)
  have c2: "checked_fit ?T2 ?M2 (Fin 1, Fin 2, Fin (2 * pi), Fin 0) =
      Inr (Fin 1, Fin 2, Fin (2 * pi), Fin 0)"
    by (simp add: checked_fit_def)
  have m: "?M2 = map Fin [1, 3]" by simp
  have nz: "Max (set [1, 3 :: real]) + Min (set [1, 3]) \<noteq> 0" by simp
  from fit_failure_reports_message_only[where errorbar = errorbar_same_length
      and temps = ?T3 and means = ?M3 and std = ?S3 and cos2_fit = checked_fit
      and e = ValueError, OF t3 l3 e3]
  obtain p3 where "fit_arguments ?T3 ?M3 = Inr (?T3, ?M3, p3)"
    and f3: "checked_fit ?T3 ?M3 p3 = Inl ValueError \<longrightarrow>
      main_report errorbar_same_length checked_fit ?T3 ?M3 ?S3 = Inr [FitFailed ValueError]"
    by blast
  with fa_nan have "p3 = (NaN, NaN, Fin pi, Fin 0)" by simp
  with f3 c3 have r3:
    "main_report errorbar_same_length checked_fit ?T3 ?M3 ?S3 = Inr [FitFailed ValueError]"
    by simp
  from fit_failure_reports_message_only[where errorbar = errorbar_same_length
      and temps = ?T2 and means = ?M2 and std = ?S2 and cos2_fit = checked_fit
      and A = "Fin 1" and B = "Fin 2" and k = "Fin (2 * pi)" and phi = "Fin 0"
      and ms = "[1, 3]", OF t2 l2 e2]
  obtain p2 where "fit_arguments ?T2 ?M2 = Inr (?T2, ?M2, p2)"
    and f2: "checked_fit ?T2 ?M2 p2 = Inr (Fin 1, Fin 2, Fin (2 * pi), Fin 0) \<and>
        ?M2 = map Fin [1, 3] \<and> Max (set [1, 3 :: real]) + Min (set [1, 3]) \<noteq> 0 \<longrightarrow>
      main_report errorbar_same_length checked_fit ?T2 ?M2 ?S2 =
        Inr [FittedVisibility (visibility (Fin 1) (Fin 2)),
             RawVisibility
               (Fin ((Max (set [1, 3]) - Min (set [1, 3])) / (Max (set [1, 3]) + Min (set [1, 3]))))]"
    by blast
  with fa_ex have "p2 = (Fin 1, Fin 2, Fin (2 * pi), Fin 0)" by simp
  with f2 c2 m nz have r2:
    "main_report errorbar_same_length checked_fit ?T2 ?M2 ?S2 =
        Inr [FittedVisibility (visibility (Fin 1) (Fin 2)),
             RawVisibility
               (Fin ((Max (set [1, 3]) - Min (set [1, 3])) / (Max (set [1, 3]) + Min (set [1, 3]))))]"
    by blast
  from t3 l3 e3 fa_nan c3 r3 t2 l2 e2 fa_ex c2 m nz r2 show ?thesis by blast
qed

text \<open>The claim as stated fails on sweeps where \<^verbatim>\<open>curve_fit\<close> itself raises. With a
  \<open>NaN\<close> mean among the data (temperatures 20, 21, 22 with the means 1, \<open>NaN\<close>, 3) the
  check of the input raises; with a negative smallest mean (temperatures 20, 21 with the
  means -1, 3) the initial guess \<open>A = min(mean)\<close> lies outside the bound \<open>A \<ge> 0\<close>. In
  both cases the output is the failure message alone, although the raw visibility of
  the means is defined (1/2 and 2).\<close>

theorem fit_failure_counterexample:
  "main_report errorbar_same_length checked_fit
     [Fin 20, Fin 21, Fin 22] [Fin 1, NaN, Fin 3] [Fin 0, NaN, Fin 0] = Inr [FitFailed ValueError] \<and>
   raw_visibility [Fin 1, NaN, Fin 3] = Inr (Fin (1 / 2)) \<and>
   main_report errorbar_same_length checked_fit
     [Fin 20, Fin 21] [Fin (- 1), Fin 3] [Fin 0, Fin 0] = Inr [FitFailed ValueError] \<and>
   raw_visibility [Fin (- 1), Fin 3] = Inr (Fin 2)"
  by (simp add: main_report_def fa_nan fa_neg checked_fit_def errorbar_same_length_def
      raw_visibility_def py_max_def py_min_def)

text \<open>
  C2. The columns go to the fit as they were loaded: a mean that is \<open>NaN\<close> is among the
  values handed to \<^verbatim>\<open>curve_fit\<close> (and has already made the initial guess \<open>NaN\<close>).
\<close>

theorem nan_mean_passed_to_fit:
  "fit_arguments [Fin 20, Fin 21] [NaN, Fin 1] =
     Inr ([Fin 20, Fin 21], [NaN, Fin 1], (NaN, NaN, Fin (2 * pi), Fin 0))"
  by (simp add: fit_arguments_def initial_guess_def np_min_def np_max_def)

text \<open>
  C8. For finite fitted \<open>A\<close> and \<open>B\<close> the visibility is \<open>B / (2 * A + B)\<close> when
  \<open>2 * A + B\<close> is not zero and \<open>NaN\<close> when it is; this is the value reported first
  after a fit that returned.
\<close>

theorem visibility_formula:
  "(2 * A + B \<noteq> 0 \<longrightarrow> visibility (Fin A) (Fin B) = Fin (B / (2 * A + B))) \<and>
   (2 * A + B = 0 \<longrightarrow> visibility (Fin A) (Fin B) = NaN) \<and>
   (temps \<noteq> [] \<and> length temps = length means \<and> errorbar temps means std = None \<and>
    fit_arguments temps means = Inr (ta, ma, p0) \<and>
    cos2_fit ta ma p0 = Inr (Fin A, Fin B, k, phi) \<longrightarrow>
      (\<exists>rest. main_report errorbar cos2_fit temps means std =
         Inr (FittedVisibility (visibility (Fin A) (Fin B)) # rest)))"
  by (simp add: visibility_def main_report_def)

theorem visibility_formula_witness:
  "2 * 1 + (2 :: real) \<noteq> 0 \<and> visibility (Fin 1) (Fin 2) = Fin (2 / (2 * 1 + 2)) \<and>
   2 * 1 + (- 2 :: real) = 0 \<and> visibility (Fin 1) (Fin (- 2)) = NaN \<and>
   [Fin 20, Fin 21] \<noteq> [] \<and> length [Fin 20, Fin 21] = length [Fin 1, Fin 3] \<and>
   errorbar_same_length [Fin 20, Fin 21] [Fin 1, Fin 3] [Fin 0, Fin 0] = None \<and>
   fit_arguments [Fin 20, Fin 21] [Fin 1, Fin 3] =
     Inr ([Fin 20, Fin 21], [Fin 1, Fin 3], (Fin 1, Fin 2, Fin (2 * pi), Fin 0)) \<and>
   checked_fit [Fin 20, Fin 21] [Fin 1, Fin 3] (Fin 1, Fin 2, Fin (2 * pi), Fin 0) =
     Inr (Fin 1, Fin 2, Fin (2 * pi), Fin 0) \<and>
   (\<exists>rest. main_report errorbar_same_length checked_fit [Fin 20, Fin 21] [Fin 1, Fin 3]
        [Fin 0, Fin 0] =
      Inr (FittedVisibility (visibility (Fin 1) (Fin 2)) # rest))"
proof -
  have n1: "2 * 1 + (2 :: real) \<noteq> 0" and n2: "2 * 1 + (- 2 :: real) = 0" by simp_all
  have t: "[Fin 20, Fin 21] \<noteq> []" and l: "length [Fin 20, Fin 21] = length [Fin 1, Fin 3]"
    by simp_all
  have e: "errorbar_same_length [Fin 20, Fin 21] [Fin 1, Fin 3] [Fin 0, Fin 0] = None"
    by (simp add: errorbar_same_length_def)
  have c: "checked_fit [Fin 20, Fin 21] [Fin 1, Fin 3] (Fin 1, Fin 2, Fin (2 * pi), Fin 0) =
     Inr (Fin 1, Fin 2, Fin (2 * pi), Fin 0)"
    by (simp add: checked_fit_def)
  note a = visibility_formula[where A = 1 and B = 2 and temps = "[Fin 20, Fin 21]"
      and means = "[Fin 1, Fin 3]" and std = "[Fin 0, Fin 0]"
      and errorbar = errorbar_same_length and ta = "[Fin 20, Fin 21]" and ma = "[Fin 1, Fin 3]"
      and ?p0.0 = "(Fin 1, Fin 2, Fin (2 * pi), Fin 0)" and cos2_fit = checked_fit
      and k = "Fin (2 * pi)" and phi = "Fin 0"]
  note b = visibility_formula[where A = 1 and B = "- 2", THEN conjunct2, THEN conjunct1]
  from a b n1 n2 t l e fa_ex c show ?thesis by blast
qed

subsection \<open>Settling\<close>

lemma wait_in_tolerance_sound:
  assumes "wait_in_tolerance reads target tol c i = Some y"
  shows "i < snd y \<and> in_tolerance reads target tol (snd y - 1) \<and>
         (\<forall>k. i \<le> k \<and> k < snd y - 1 \<longrightarrow> \<not> in_tolerance reads target tol k) \<and>
         fst y = (if snd y = i + 1 then c else 0)"
proof (rule wait_in_tolerance.raw_induct[where P = "\<lambda>reads target tol c i y.
         i < snd y \<and> in_tolerance reads target tol (snd y - 1) \<and>
         (\<forall>k. i \<le> k \<and> k < snd y - 1 \<longrightarrow> \<not> in_tolerance reads target tol k) \<and>
         fst y = (if snd y = i + 1 then c else 0)", OF _ assms], goal_cases)
  case (1 w reads target tol c i y)
  note IH = "1"(1) and eq = "1"(2)
  show ?case
  proof (cases "tol < \<bar>reads i - target\<bar>")
    case True
    with eq have rec: "w reads target tol 0 (i + 1) = Some y" by simp
    from IH[OF this] have
      a: "i + 1 < snd y" and b: "in_tolerance reads target tol (snd y - 1)" and
      c: "\<forall>k. i + 1 \<le> k \<and> k < snd y - 1 \<longrightarrow> \<not> in_tolerance reads target tol k"
      by simp_all
    from True have out: "\<not> in_tolerance reads target tol i"
      by (simp add: in_tolerance_def)
    have "\<forall>k. i \<le> k \<and> k < snd y - 1 \<longrightarrow> \<not> in_tolerance reads target tol k"
    proof (intro allI impI)
      fix k assume k: "i \<le> k \<and> k < snd y - 1"
      show "\<not> in_tolerance reads target tol k"
      proof (cases "k = i")
        case True
        with out show ?thesis by simp
      next
        case False
        with k have "i + 1 \<le> k \<and> k < snd y - 1" by simp
        with c show ?thesis by blast
      qed
    qed
    moreover from IH[OF rec] have "fst y = 0"
      by (simp split: if_splits)
    ultimately show ?thesis using a b by simp
  next
    case False
    with eq have "y = (c, i + 1)" by simp
    with False show ?thesis by (simp add: in_tolerance_def)
  qed
qed

lemma wait_in_tolerance_complete:
  assumes "in_tolerance reads target tol j" and "i \<le> j"
    and "\<forall>k. i \<le> k \<and> k < j \<longrightarrow> \<not> in_tolerance reads target tol k"
  shows "wait_in_tolerance reads target tol c i = Some (if j = i then c else 0, j + 1)"
  using assms
proof (induction "j - i" arbitrary: i c)
  case 0
  then have "j = i" by simp
  with "0.prems"(1) show ?case
    by (subst wait_in_tolerance.simps) (simp add: in_tolerance_def)
next
  case (Suc n)
  then have lt: "i < j" by simp
  with Suc.prems(3) have "\<not> in_tolerance reads target tol i" by simp
  then have out: "tol < \<bar>reads i - target\<bar>" by (simp add: in_tolerance_def)
  have "n = j - (i + 1)" using Suc.hyps(2) by simp
  moreover have "i + 1 \<le> j" using lt by simp
  moreover have "\<forall>k. i + 1 \<le> k \<and> k < j \<longrightarrow> \<not> in_tolerance reads target tol k"
    using Suc.prems(3) by simp
  ultimately have "wait_in_tolerance reads target tol 0 (i + 1) =
      Some (if j = i + 1 then 0 else 0, j + 1)"
    using Suc.hyps(1) Suc.prems(1) by blast
  with out lt show ?case
    by (subst wait_in_tolerance.simps) simp
qed

lemma three_in_tolerance:
  assumes "3 \<le> i" and all: "\<forall>k. i - 3 \<le> k \<and> k < i \<longrightarrow> in_tolerance reads target tol k"
  shows "settled_at reads target tol (i - 3)"
proof -
  have "i - 3 \<le> i - 3 \<and> i - 3 < i" using assms(1) by arith
  with all have a: "in_tolerance reads target tol (i - 3)" by blast
  have "i - 3 \<le> i - 3 + 1 \<and> i - 3 + 1 < i" using assms(1) by arith
  with all have b: "in_tolerance reads target tol (i - 3 + 1)" by blast
  have "i - 3 \<le> i - 3 + 2 \<and> i - 3 + 2 < i" using assms(1) by arith
  with all have c: "in_tolerance reads target tol (i - 3 + 2)" by blast
  from a b c show ?thesis by (simp only: settled_at_def simp_thms)
qed

lemma settle_loop_sound:
  assumes "settle_loop reads target tol c i = Some n"
  shows "c \<le> 3 \<and> c \<le> i \<and> (\<forall>k. i - c \<le> k \<and> k < i \<longrightarrow> in_tolerance reads target tol k) \<longrightarrow>
         3 \<le> n \<and> settled_at reads target tol (n - 3)"
proof (rule settle_loop.raw_induct[where P = "\<lambda>reads target tol c i n.
         c \<le> 3 \<and> c \<le> i \<and> (\<forall>k. i - c \<le> k \<and> k < i \<longrightarrow> in_tolerance reads target tol k) \<longrightarrow>
         3 \<le> n \<and> settled_at reads target tol (n - 3)", OF _ assms], goal_cases)
  case (1 s reads target tol c i n)
  note IH = "1"(1) and eq = "1"(2)
  show ?case
  proof (intro impI)
    assume inv: "c \<le> 3 \<and> c \<le> i \<and> (\<forall>k. i - c \<le> k \<and> k < i \<longrightarrow> in_tolerance reads target tol k)"
    show "3 \<le> n \<and> settled_at reads target tol (n - 3)"
    proof (cases "c < 3")
      case False
      with inv have c3: "c = 3" by simp
      with eq have n: "n = i" by simp
      from inv c3 have i3: "3 \<le> i"
        and "\<forall>k. i - 3 \<le> k \<and> k < i \<longrightarrow> in_tolerance reads target tol k" by simp_all
      then have "settled_at reads target tol (i - 3)" by (rule three_in_tolerance)
      with i3 n show ?thesis by simp
    next
      case True
      with eq have "Option.bind (wait_in_tolerance reads target tol c i)
          (\<lambda>(count', i'). s reads target tol (count' + 1) i') = Some n"
        by (simp only: if_True)
      then obtain p where p: "wait_in_tolerance reads target tol c i = Some p"
        and "(case p of (count', i') \<Rightarrow> s reads target tol (count' + 1) i') = Some n"
        by (cases "wait_in_tolerance reads target tol c i") simp_all
      then obtain c' i' where
        w: "wait_in_tolerance reads target tol c i = Some (c', i')" and
        s: "s reads target tol (c' + 1) i' = Some n"
        by (cases p) simp
      from wait_in_tolerance_sound[OF w] have
        a: "i < i'" and b: "in_tolerance reads target tol (i' - 1)" and
        d: "c' = (if i' = i + 1 then c else 0)"
        by simp_all
      have inv': "c' + 1 \<le> 3 \<and> c' + 1 \<le> i' \<and>
                  (\<forall>k. i' - (c' + 1) \<le> k \<and> k < i' \<longrightarrow> in_tolerance reads target tol k)"
      proof (cases "i' = i + 1")
        case True
        with d have c': "c' = c" by simp
        have "\<forall>k. i' - (c' + 1) \<le> k \<and> k < i' \<longrightarrow> in_tolerance reads target tol k"
        proof (intro allI impI)
          fix k assume k: "i' - (c' + 1) \<le> k \<and> k < i'"
          show "in_tolerance reads target tol k"
          proof (cases "k = i")
            case True
            with b \<open>i' = i + 1\<close> show ?thesis by simp
          next
            case False
            with k c' \<open>i' = i + 1\<close> have "i - c \<le> k \<and> k < i" by simp
            with inv show ?thesis by blast
          qed
        qed
        with c' True \<open>c < 3\<close> inv show ?thesis by simp
      next
        case False
        with d have c': "c' = 0" by simp
        have "\<forall>k. i' - (c' + 1) \<le> k \<and> k < i' \<longrightarrow> in_tolerance reads target tol k"
        proof (intro allI impI)
          fix k assume "i' - (c' + 1) \<le> k \<and> k < i'"
          with c' have "i' - 1 \<le> k \<and> k < i'" by simp
          then have "k = i' - 1" by arith
          with b show "in_tolerance reads target tol k" by simp
        qed
        with c' a show ?thesis by simp
      qed
      from IH[OF s] inv' show ?thesis by blast
    qed
  qed
qed

lemma settle_loop_complete:
  assumes t: "settled_at reads target tol t"
    and least: "\<forall>u < t. \<not> settled_at reads target tol u"
    and inv: "c \<le> 3" "c \<le> i" "\<forall>k. i - c \<le> k \<and> k < i \<longrightarrow> in_tolerance reads target tol k"
      "i - c \<le> t"
  shows "settle_loop reads target tol c i = Some (t + 3)"
  using inv
proof (induction "t + 3 - i" arbitrary: c i rule: less_induct)
  case less
  note inv = less.prems
  show ?case
  proof (cases "c < 3")
    case False
    with inv(1) have c3: "c = 3" by simp
    with inv(2,3) have "3 \<le> i"
      and "\<forall>k. i - 3 \<le> k \<and> k < i \<longrightarrow> in_tolerance reads target tol k" by simp_all
    then have "settled_at reads target tol (i - 3)" by (rule three_in_tolerance)
    with least have "\<not> i - 3 < t" by blast
    with inv(4) c3 inv(2) have "i = t + 3" by simp
    with c3 show ?thesis by (subst settle_loop.simps) simp
  next
    case True
    have ok2: "in_tolerance reads target tol (t + 2)" using t by (simp add: settled_at_def)
    have le2: "i \<le> t + 2" using True inv(4) by simp
    define j where "j = (LEAST k. i \<le> k \<and> in_tolerance reads target tol k)"
    have ex: "i \<le> t + 2 \<and> in_tolerance reads target tol (t + 2)"
      using ok2 le2 by simp
    have jprop: "i \<le> j \<and> in_tolerance reads target tol j"
      unfolding j_def using ex
      by (rule LeastI[where P = "\<lambda>k. i \<le> k \<and> in_tolerance reads target tol k"])
    have jleast: "\<forall>k. i \<le> k \<and> k < j \<longrightarrow> \<not> in_tolerance reads target tol k"
    proof (intro allI impI)
      fix k assume k: "i \<le> k \<and> k < j"
      then have "k < (LEAST k. i \<le> k \<and> in_tolerance reads target tol k)"
        by (simp only: j_def)
      from not_less_Least[OF this] k show "\<not> in_tolerance reads target tol k" by simp
    qed
    have jle: "j \<le> t + 2"
      unfolding j_def using ex
      by (rule Least_le[where P = "\<lambda>k. i \<le> k \<and> in_tolerance reads target tol k"])
    define c' where "c' = (if j = i then c else 0)"
    have w: "wait_in_tolerance reads target tol c i = Some (c', j + 1)"
      unfolding c'_def using jprop jleast by (intro wait_in_tolerance_complete) simp_all
    have step: "settle_loop reads target tol c i = settle_loop reads target tol (c' + 1) (j + 1)"
      using True w by (subst settle_loop.simps) simp
    have m: "t + 3 - (j + 1) < t + 3 - i" using jprop jle by arith
    have i1: "c' + 1 \<le> 3" using True by (simp add: c'_def)
    have i2: "c' + 1 \<le> j + 1" using inv(2) by (simp add: c'_def)
    have i3: "\<forall>k. j + 1 - (c' + 1) \<le> k \<and> k < j + 1 \<longrightarrow> in_tolerance reads target tol k"
    proof (intro allI impI)
      fix k assume k: "j + 1 - (c' + 1) \<le> k \<and> k < j + 1"
      show "in_tolerance reads target tol k"
      proof (cases "k = j")
        case True
        with jprop show ?thesis by simp
      next
        case False
        with k have kj: "j - c' \<le> k \<and> k < j" by simp
        then have "c' \<noteq> 0" by auto
        then have "j = i" "c' = c" by (simp_all add: c'_def split: if_splits)
        with kj inv(3) show ?thesis by simp
      qed
    qed
    have i4: "j + 1 - (c' + 1) \<le> t"
    proof (cases "j = i")
      case True
      with inv(4) show ?thesis by (simp add: c'_def)
    next
      case False
      then have c0: "c' = 0" by (simp add: c'_def)
      from False jprop have "i \<le> i \<and> i < j" by simp
      with jleast have out: "\<not> in_tolerance reads target tol i" by blast
      have "\<not> t < j"
      proof
        assume tj: "t < j"
        show False
        proof (cases "i \<le> t")
          case True
          with tj jleast have "\<not> in_tolerance reads target tol t" by blast
          with t show False by (simp add: settled_at_def)
        next
          case False
          with inv(4) \<open>c < 3\<close> have "i = t + 1 \<or> i = t + 2" by auto
          with t have "in_tolerance reads target tol i" by (auto simp: settled_at_def)
          with out show False by simp
        qed
      qed
      with c0 show ?thesis by simp
    qed
    from less.hyps[OF m i1 i2 i3 i4] step show ?thesis by simp
  qed
qed

text \<open>
  C9. If \<open>set_and_wait\<close> returns, after \<open>n\<close> readings, then the last three readings
  were within tolerance and no three consecutive readings before them were. It
  returns whenever three consecutive readings within tolerance exist, and only then:
  on a sequence of readings with no such three it never returns.
\<close>

theorem set_and_wait_three_consecutive:
  "(set_and_wait reads target tol = Some n \<longrightarrow>
      3 \<le> n \<and>
      in_tolerance reads target tol (n - 3) \<and> in_tolerance reads target tol (n - 2) \<and>
      in_tolerance reads target tol (n - 1) \<and>
      (\<forall>m. 3 \<le> m \<and> m < n \<longrightarrow>
         \<not> (in_tolerance reads target tol (m - 3) \<and> in_tolerance reads target tol (m - 2) \<and>
            in_tolerance reads target tol (m - 1)))) \<and>
   ((\<exists>t. in_tolerance reads target tol t \<and> in_tolerance reads target tol (t + 1) \<and>
         in_tolerance reads target tol (t + 2)) \<longrightarrow>
      (\<exists>n. set_and_wait reads target tol = Some n)) \<and>
   ((\<forall>t. \<not> (in_tolerance reads target tol t \<and> in_tolerance reads target tol (t + 1) \<and>
          in_tolerance reads target tol (t + 2))) \<longrightarrow>
      set_and_wait reads target tol = None)"
proof -
  define L where "L = (LEAST u. settled_at reads target tol u)"
  have complete: "set_and_wait reads target tol = Some (L + 3)" if "settled_at reads target tol t" for t
  proof -
    from that have "settled_at reads target tol L"
      unfolding L_def by (rule LeastI)
    moreover have "\<forall>u < L. \<not> settled_at reads target tol u"
      unfolding L_def using not_less_Least by blast
    ultimately have "settle_loop reads target tol 0 0 = Some (L + 3)"
      by (rule settle_loop_complete) simp_all
    then show ?thesis by (simp only: set_and_wait_def)
  qed
  have sound: "3 \<le> n \<and> settled_at reads target tol (n - 3)"
    if "set_and_wait reads target tol = Some n" for n
  proof -
    from that have "settle_loop reads target tol 0 0 = Some n"
      by (simp only: set_and_wait_def)
    from settle_loop_sound[OF this] show ?thesis by simp
  qed
  have shift: "settled_at reads target tol (m - 3) \<longleftrightarrow>
      in_tolerance reads target tol (m - 3) \<and> in_tolerance reads target tol (m - 2) \<and>
      in_tolerance reads target tol (m - 1)" if "3 \<le> m" for m
  proof -
    from that have "m - 3 + 1 = m - 2" "m - 3 + 2 = m - 1" by arith+
    then show ?thesis by (simp add: settled_at_def)
  qed
  have first: "3 \<le> n \<and>
      in_tolerance reads target tol (n - 3) \<and> in_tolerance reads target tol (n - 2) \<and>
      in_tolerance reads target tol (n - 1) \<and>
      (\<forall>m. 3 \<le> m \<and> m < n \<longrightarrow>
         \<not> (in_tolerance reads target tol (m - 3) \<and> in_tolerance reads target tol (m - 2) \<and>
            in_tolerance reads target tol (m - 1)))"
    if ret: "set_and_wait reads target tol = Some n"
  proof -
    from sound[OF ret] have n3: "3 \<le> n" and st: "settled_at reads target tol (n - 3)" by simp_all
    from complete[OF st] ret have nL: "n = L + 3" by simp
    have "\<not> settled_at reads target tol (m - 3)" if "3 \<le> m \<and> m < n" for m
    proof
      assume "settled_at reads target tol (m - 3)"
      then have "L \<le> m - 3" unfolding L_def by (rule Least_le)
      with that nL show False by arith
    qed
    with shift have "\<forall>m. 3 \<le> m \<and> m < n \<longrightarrow>
         \<not> (in_tolerance reads target tol (m - 3) \<and> in_tolerance reads target tol (m - 2) \<and>
            in_tolerance reads target tol (m - 1))" by blast
    with n3 st shift[OF n3] show ?thesis by blast
  qed
  have second: "\<exists>n. set_and_wait reads target tol = Some n"
    if "\<exists>t. in_tolerance reads target tol t \<and> in_tolerance reads target tol (t + 1) \<and>
         in_tolerance reads target tol (t + 2)"
  proof -
    from that obtain t where "settled_at reads target tol t"
      by (auto simp: settled_at_def)
    from complete[OF this] show ?thesis by blast
  qed
  have third: "set_and_wait reads target tol = None"
    if none: "\<forall>t. \<not> (in_tolerance reads target tol t \<and> in_tolerance reads target tol (t + 1) \<and>
          in_tolerance reads target tol (t + 2))"
  proof (cases "set_and_wait reads target tol")
    case None
    then show ?thesis .
  next
    case (Some n)
    from sound[OF Some] have "settled_at reads target tol (n - 3)" by simp
    then have "in_tolerance reads target tol (n - 3) \<and> in_tolerance reads target tol (n - 3 + 1) \<and>
        in_tolerance reads target tol (n - 3 + 2)"
      by (simp only: settled_at_def)
    with none have False by blast
    then show ?thesis ..
  qed
  from first second third show ?thesis by blast
qed

theorem set_and_wait_three_consecutive_witness:
  "set_and_wait (\<lambda>i. if i < 2 then 20 else 25) 25 (1 / 10) = Some 5 \<and>
   (3 :: nat) \<le> 5 \<and>
   in_tolerance (\<lambda>i. if i < 2 then 20 else 25) 25 (1 / 10) (5 - 3) \<and>
   in_tolerance (\<lambda>i. if i < 2 then 20 else 25) 25 (1 / 10) (5 - 2) \<and>
   in_tolerance (\<lambda>i. if i < 2 then 20 else 25) 25 (1 / 10) (5 - 1) \<and>
   (\<exists>t. in_tolerance (\<lambda>i. if i < 2 then 20 else 25) 25 (1 / 10) t \<and>
        in_tolerance (\<lambda>i. if i < 2 then 20 else 25) 25 (1 / 10) (t + 1) \<and>
        in_tolerance (\<lambda>i. if i < 2 then 20 else 25) 25 (1 / 10) (t + 2)) \<and>
   (\<exists>n. set_and_wait (\<lambda>i. if i < 2 then 20 else 25) 25 (1 / 10) = Some n) \<and>
   (\<forall>t. \<not> (in_tolerance (\<lambda>i. 20) 25 (1 / 10) t \<and> in_tolerance (\<lambda>i. 20) 25 (1 / 10) (t + 1) \<and>
          in_tolerance (\<lambda>i. 20) 25 (1 / 10) (t + 2))) \<and>
   set_and_wait (\<lambda>i. 20) 25 (1 / 10) = None"
proof -
  let ?r = "\<lambda>i :: nat. if i < 2 then 20 else 25 :: real"
  have s2: "settled_at ?r 25 (1 / 10) 2"
    by (simp add: settled_at_def in_tolerance_def)
  have least: "\<forall>u < 2. \<not> settled_at ?r 25 (1 / 10) u"
    by (simp add: settled_at_def in_tolerance_def)
  have "settle_loop ?r 25 (1 / 10) 0 0 = Some (2 + 3)"
    using s2 least by (rule settle_loop_complete) simp_all
  then have ret: "set_and_wait ?r 25 (1 / 10) = Some 5"
    by (simp add: set_and_wait_def)
  have ex: "\<exists>t. in_tolerance ?r 25 (1 / 10) t \<and> in_tolerance ?r 25 (1 / 10) (t + 1) \<and>
        in_tolerance ?r 25 (1 / 10) (t + 2)"
    using s2 unfolding settled_at_def by blast
  have never: "\<forall>t. \<not> (in_tolerance (\<lambda>i. 20) 25 (1 / 10) t \<and>
      in_tolerance (\<lambda>i. 20) 25 (1 / 10) (t + 1) \<and> in_tolerance (\<lambda>i. 20) 25 (1 / 10) (t + 2))"
    by (simp add: in_tolerance_def)
  note a = set_and_wait_three_consecutive[of ?r 25 "1 / 10" 5]
  note b = set_and_wait_three_consecutive[of "\<lambda>i. 20" 25 "1 / 10", THEN conjunct2, THEN conjunct2]
  from a b ret ex never show ?thesis by blast
qed

end
